theory Spec2Isabelle
  imports Complex_Main "HOL-Library.Word" "HOL-Library.Log_Nat"
begin

unbundle bit_operations_syntax

section \<open>Numbers of the source language\<close>

text \<open>
  The component is written in JavaScript. Its numbers are IEEE-754 binary64 values; the
  bitwise operators work on their 32-bit integer conversions. Three views are used here:
  \<^item> 32-bit integer arithmetic (\<open>Math.imul\<close>, \<open>^\<close>, \<open>>>>\<close>, \<open>| 0\<close>) is a \<open>32 word\<close>;
  \<^item> the luminance of \<open>bitmapToAlphaMaskCanvas\<close>, a byte that binary64 rounding decides,
    is evaluated in an exact model of binary64 round-to-nearest-even on dyadic numbers;
  \<^item> the decoding of the turbulence field (\<open>sampleSaberField\<close>) and the packing of its
    displacement bytes are also written with every operation rounded to binary64 by a
    rounding function on the real numbers, for statements about all buffers;
  \<^item> elsewhere binary64 is idealised as \<open>real\<close> (no rounding, no NaN, \<open>Math.sin\<close> and
    \<open>Math.pow\<close> as \<open>sin\<close> and \<open>powr\<close>); a typed-array read outside the array, which gives
    \<open>undefined\<close> in the source, is \<open>None\<close>. Rounding can move a real-valued result by a
    few units in the last place, and an integer obtained by rounding an exact tie
    \<open>k + 0.5\<close> by one; what is proved about such integers leaves room for that.
\<close>

type_synonym int32 = "32 word"

definition imul :: "int32 \<Rightarrow> int32 \<Rightarrow> int32" where
  \<comment> \<open>\<open>Math.imul(a, b)\<close>: the low 32 bits of the product.\<close>
  "imul a b = a * b"

definition js_trunc :: "real \<Rightarrow> int" where
  \<comment> \<open>Rounding towards zero, the first step of \<open>ToInt32\<close>.\<close>
  "js_trunc x = (if 0 \<le> x then \<lfloor>x\<rfloor> else \<lceil>x\<rceil>)"

definition to_int32 :: "real \<Rightarrow> int" where
  \<comment> \<open>\<open>x | 0\<close>: truncate, wrap modulo \<open>2^32\<close>, read as two's complement.\<close>
  "to_int32 x = sint (word_of_int (js_trunc x) :: int32)"

definition js_round :: "real \<Rightarrow> int" where
  \<comment> \<open>\<open>Math.round(x)\<close>: nearest integer, halves towards \<open>+\<infinity>\<close>.\<close>
  "js_round x = \<lfloor>x + 1 / 2\<rfloor>"

definition clamp01 :: "real \<Rightarrow> real" where
  "clamp01 x = (if x < 0 then 0 else if x > 1 then 1 else x)"

definition store_u8 :: "int \<Rightarrow> nat" where
  \<comment> \<open>Storing an integer-valued number into a \<open>Uint8ClampedArray\<close> (the \<open>data\<close> of an
      \<open>ImageData\<close>): values below 0 become 0, values above 255 become 255.\<close>
  "store_u8 k = (if k < 0 then 0 else if 255 < k then 255 else nat k)"

definition read_u8 :: "nat list \<Rightarrow> int \<Rightarrow> nat option" where
  \<comment> \<open>\<open>data[i]\<close> on a typed array: \<open>undefined\<close> (here \<open>None\<close>) outside \<open>0 .. length - 1\<close>.\<close>
  "read_u8 d i = (if 0 \<le> i \<and> i < int (length d) then Some (d ! nat i) else None)"

section \<open>Noise engine: the integer hash\<close>

definition hash2i_bits :: "int \<Rightarrow> int \<Rightarrow> int \<Rightarrow> int32" where
  \<comment> \<open>The three integer-mixing lines of \<open>hash2i\<close>; \<open>x | 0\<close> on an integer is \<open>word_of_int\<close>,
      \<open>n >>> k\<close> is \<open>drop_bit k\<close>.\<close>
  "hash2i_bits x y seed =
     (let n0 = imul (word_of_int x) 374761393 XOR imul (word_of_int y) 668265263
                 XOR word_of_int seed;
          n1 = imul (n0 XOR drop_bit 13 n0) 1274126177;
          n2 = n1 XOR drop_bit 16 n1
      in n2)"

definition hash2i :: "int \<Rightarrow> int \<Rightarrow> int \<Rightarrow> real" where
  \<comment> \<open>\<open>(n >>> 0) / 4294967295\<close>: the unsigned value of the mixed word over \<open>2^32 - 1\<close>.\<close>
  "hash2i x y seed = real (unat (hash2i_bits x y seed)) / 4294967295"

section \<open>binary64 arithmetic on positive dyadic numbers\<close>

text \<open>
  A finite non-negative binary64 value is a pair \<open>(m, e)\<close> standing for \<open>m * 2^e\<close>.
  \<open>fl_ratio a b\<close> is the binary64 nearest to the positive rational \<open>a / b\<close> (53 significant
  bits, ties to even); products and sums are computed exactly and then rounded, as
  IEEE-754 prescribes. Only the normal range is covered, which is all the luminance needs.
\<close>

type_synonym dyadic = "int \<times> int"

definition scaled :: "int \<Rightarrow> int \<Rightarrow> int \<Rightarrow> int \<times> int" where
  \<comment> \<open>Numerator and denominator of \<open>(a / b) / 2^e\<close>.\<close>
  "scaled a b e = (if 0 \<le> e then (a, b * 2 ^ nat e) else (a * 2 ^ nat (- e), b))"

definition rne_div :: "int \<Rightarrow> int \<Rightarrow> int" where
  \<comment> \<open>\<open>a / b\<close> rounded to the nearest integer, ties to the even one (\<open>b > 0\<close>).\<close>
  "rne_div a b =
     (let q = a div b; r = a mod b
      in if 2 * r < b then q else if b < 2 * r then q + 1 else if even q then q else q + 1)"

definition floor_log2 :: "int \<Rightarrow> int \<Rightarrow> int" where
  \<comment> \<open>\<open>\<lfloor>log\<^sub>2 (a / b)\<rfloor>\<close> for positive \<open>a\<close>, \<open>b\<close>.\<close>
  "floor_log2 a b =
     (let k = bitlen a - bitlen b
      in case scaled a b k of (a', b') \<Rightarrow> if b' \<le> a' then k else k - 1)"

definition fl_ratio :: "int \<Rightarrow> int \<Rightarrow> dyadic" where
  "fl_ratio a b =
     (if a \<le> 0 then (0, 0)
      else let e = floor_log2 a b - 52
           in case scaled a b e of (a', b') \<Rightarrow> (rne_div a' b', e))"

definition fl_round :: "dyadic \<Rightarrow> dyadic" where
  "fl_round x = (case x of (m, e) \<Rightarrow> (case fl_ratio m 1 of (m', e') \<Rightarrow> (m', e' + e)))"

definition fl_mul :: "dyadic \<Rightarrow> dyadic \<Rightarrow> dyadic" where
  "fl_mul x y = (case x of (m1, e1) \<Rightarrow> case y of (m2, e2) \<Rightarrow> fl_round (m1 * m2, e1 + e2))"

definition fl_add :: "dyadic \<Rightarrow> dyadic \<Rightarrow> dyadic" where
  "fl_add x y =
     (case x of (m1, e1) \<Rightarrow> case y of (m2, e2) \<Rightarrow>
        let e = min e1 e2
        in fl_round (m1 * 2 ^ nat (e1 - e) + m2 * 2 ^ nat (e2 - e), e))"

definition fl_of_nat :: "nat \<Rightarrow> dyadic" where
  "fl_of_nat n = (int n, 0)"

definition fl_trunc :: "dyadic \<Rightarrow> int" where
  \<comment> \<open>The integer part of a non-negative value.\<close>
  "fl_trunc x = (case x of (m, e) \<Rightarrow> if 0 \<le> e then m * 2 ^ nat e else m div 2 ^ nat (- e))"

section \<open>binary64 rounding of a real number\<close>

text \<open>
  Where a statement ranges over all inputs and its truth depends on rounding, the
  arithmetic of the source is written with an explicit rounding function applied to the
  exact result of every operation, as IEEE-754 prescribes. \<open>b64 x\<close> is the number with 53
  significant bits nearest to \<open>x\<close>, ties to the even significand. The exponent is not
  bounded: overflow and gradual underflow are left out, so \<open>b64\<close> is the binary64
  rounding for magnitudes between \<open>2^-1022\<close> and \<open>2^1024\<close>.
\<close>

definition rne :: "real \<Rightarrow> int" where
  \<comment> \<open>The nearest integer, ties to the even one.\<close>
  "rne y = (let f = \<lfloor>y\<rfloor>; d = y - of_int f
            in if d < 1 / 2 then f else if 1 / 2 < d then f + 1 else if even f then f else f + 1)"

definition b64 :: "real \<Rightarrow> real" where
  "b64 x = (if x = 0 then 0
            else (let e = \<lfloor>log 2 \<bar>x\<bar>\<rfloor> - 52
                  in of_int (rne (x / 2 powr of_int e)) * 2 powr of_int e))"

definition ulp1 :: real where
  \<comment> \<open>Rounding a non-negative number multiplies it by at most this factor.\<close>
  "ulp1 = 1 + 1 / 2 ^ 53"

section \<open>Mask pipeline: alpha masks\<close>

definition lum709 :: "nat \<Rightarrow> nat \<Rightarrow> nat \<Rightarrow> nat" where
  \<comment> \<open>\<open>(0.2126 * r + 0.7152 * g + 0.0722 * b) | 0\<close>, evaluated left to right in binary64.
      The value is below \<open>2^31\<close>, so \<open>| 0\<close> is the integer part.\<close>
  "lum709 r g b =
     nat (fl_trunc
       (fl_add
         (fl_add (fl_mul (fl_ratio 2126 10000) (fl_of_nat r))
                 (fl_mul (fl_ratio 7152 10000) (fl_of_nat g)))
         (fl_mul (fl_ratio 722 10000) (fl_of_nat b))))"

fun alpha_loop :: "nat \<Rightarrow> nat list \<Rightarrow> nat list" where
  "alpha_loop threshold (r # g # b # a # rest) =
     (let lum = lum709 r g b;
          a' = (if lum \<le> threshold then 0 else lum)
      in 0 # 0 # 0 # a' # alpha_loop threshold rest)"
| "alpha_loop threshold rest = map (\<lambda>_. 0) rest"

definition bitmapToAlphaMaskCanvas :: "nat list \<Rightarrow> nat \<Rightarrow> nat list" where
  \<comment> \<open>The pixel loop of \<open>bitmapToAlphaMaskCanvas\<close> on the RGBA bytes that \<open>getImageData\<close>
      returns for the rasterised bitmap. (An \<open>ImageData\<close> holds whole pixels; on a
      trailing fragment the source reads \<open>undefined\<close>, gets luminance 0 and stores zeros.)\<close>
  "bitmapToAlphaMaskCanvas d threshold = alpha_loop threshold d"

section \<open>Noise engine: value noise and fractal sums\<close>

definition smoothstep :: "real \<Rightarrow> real" where
  "smoothstep t = t * t * (3 - 2 * t)"

definition lerp :: "real \<Rightarrow> real \<Rightarrow> real \<Rightarrow> real" where
  "lerp a b t = a + (b - a) * t"

definition valueNoise2D :: "real \<Rightarrow> real \<Rightarrow> int \<Rightarrow> real" where
  "valueNoise2D x y seed =
     (let xi = \<lfloor>x\<rfloor>; yi = \<lfloor>y\<rfloor>;
          xf = x - of_int xi; yf = y - of_int yi;
          u = smoothstep xf; v = smoothstep yf;
          a = hash2i xi yi seed;
          b = hash2i (xi + 1) yi seed;
          c = hash2i xi (yi + 1) seed;
          d = hash2i (xi + 1) (yi + 1) seed;
          ab = lerp a b u;
          cd = lerp c d u
      in lerp ab cd v)"

fun fbm_loop :: "real \<Rightarrow> real \<Rightarrow> int \<Rightarrow> nat \<Rightarrow> nat \<Rightarrow> real \<Rightarrow> real \<Rightarrow> real \<Rightarrow> real \<Rightarrow> real" where
  \<comment> \<open>The octave loop of \<open>fbm2D\<close>: \<open>k\<close> octaves remain, \<open>i\<close> is the loop counter,
      \<open>sm\<close> and \<open>nrm\<close> are the source's \<open>sum\<close> and \<open>norm\<close>.\<close>
  "fbm_loop x y seed 0 i sm amp freq nrm = (if nrm > 0 then sm / nrm else 0)"
| "fbm_loop x y seed (Suc k) i sm amp freq nrm =
     fbm_loop x y seed k (Suc i)
       (sm + amp * valueNoise2D (x * freq) (y * freq) (seed + int i * 1013))
       (amp * 0.5) (freq * 2) (nrm + amp)"

definition fbm2D :: "real \<Rightarrow> real \<Rightarrow> nat \<Rightarrow> int \<Rightarrow> real" where
  "fbm2D x y octaves seed = fbm_loop x y seed octaves 0 0 0.5 1 0"

section \<open>Turbulence field: synthesis and packing\<close>

definition curl :: "real \<Rightarrow> real \<Rightarrow> real \<times> real" where
  \<comment> \<open>The displacement vector of \<open>renderSaberFields\<close> from the two fbm samples
      \<open>nx\<close>, \<open>ny\<close>: remapped to \<open>[-1,1]\<close>, rotated, scaled by 1.15.\<close>
  "curl nx ny =
     (let dx = (nx - 0.5) * 2;
          dy = (ny - 0.5) * 2;
          ang = (nx + ny - 1) * 1.65;
          ca = cos ang;
          sa = sin ang;
          cdx = dx * ca - dy * sa;
          cdy = dx * sa + dy * ca
      in (cdx * 1.15, cdy * 1.15))"

definition pack_disp :: "real \<Rightarrow> nat" where
  \<comment> \<open>\<open>data[p++] = ((d * 0.5 + 0.5) * 255) | 0\<close>, each operation rounded to binary64.\<close>
  "pack_disp d = store_u8 (to_int32 (b64 (b64 (b64 (d * 0.5) + 0.5) * 255)))"

definition pack_unit :: "real \<Rightarrow> nat" where
  \<comment> \<open>\<open>data[p++] = (s * 255) | 0\<close>.\<close>
  "pack_unit s = store_u8 (to_int32 (b64 (s * 255)))"

record saber_opts =
  so_seed :: int
  so_dispScale :: real
  so_filScale :: real
  so_octDisp :: nat
  so_octFil :: nat
  so_flowX :: real
  so_flowY :: real

definition saber_disp :: "int \<Rightarrow> real \<Rightarrow> saber_opts \<Rightarrow> nat \<Rightarrow> nat \<Rightarrow> real \<times> real" where
  \<comment> \<open>The displacement \<open>(dx, dy)\<close> that the pixel loop of \<open>renderSaberFields\<close> has computed
      at column \<open>x\<close>, row \<open>y\<close> when it reaches the packing lines.\<close>
  "saber_disp res tSec opts x y =
     (let fx = tSec * so_flowX opts;
          fy = tSec * so_flowY opts;
          v = real y / of_int res;
          u = real x / of_int res;
          nx = fbm2D (u * so_dispScale opts + fx) (v * so_dispScale opts + fy) (so_octDisp opts) (so_seed opts);
          ny = fbm2D (u * so_dispScale opts + 37 + fx * 0.92) (v * so_dispScale opts + 91 + fy * 1.08)
                 (so_octDisp opts) (so_seed opts + 19)
      in curl nx ny)"

definition saber_pixel :: "int \<Rightarrow> real \<Rightarrow> saber_opts \<Rightarrow> nat \<Rightarrow> nat \<Rightarrow> nat list" where
  \<comment> \<open>The body of the pixel loop of \<open>renderSaberFields\<close> at column \<open>x\<close>, row \<open>y\<close>:
      the four bytes it stores. \<open>Math.pow\<close> is \<open>powr\<close> (its bases are not negative when the
      fbm value lies in \<open>[0,1]\<close>).\<close>
  "saber_pixel res tSec opts x y =
     (let fx = tSec * so_flowX opts;
          fy = tSec * so_flowY opts;
          flick = 0.9 + 0.1 * sin (tSec * 3.2);
          v = real y / of_int res;
          u = real x / of_int res;
          nx = fbm2D (u * so_dispScale opts + fx) (v * so_dispScale opts + fy) (so_octDisp opts) (so_seed opts);
          ny = fbm2D (u * so_dispScale opts + 37 + fx * 0.92) (v * so_dispScale opts + 91 + fy * 1.08)
                 (so_octDisp opts) (so_seed opts + 19);
          d = curl nx ny;
          n = fbm2D (u * so_filScale opts + fx * 2.1) (v * so_filScale opts - fy * 2.4)
                (so_octFil opts) (so_seed opts + 77);
          ridged = 1 - \<bar>2 * n - 1\<bar>;
          fil0 = ridged powr 3.25;
          spark = clamp01 ((n - 0.62) * 3.4) powr 2.1;
          fil = clamp01 ((fil0 * 0.85 + spark * 0.55) * flick)
      in [pack_disp (fst d), pack_disp (snd d), pack_unit spark, pack_unit fil])"

definition renderSaberFields :: "int \<Rightarrow> real \<Rightarrow> saber_opts \<Rightarrow> nat list" where
  \<comment> \<open>The new contents of the \<open>res \<times> res\<close> noise buffer, rows first.\<close>
  "renderSaberFields res tSec opts =
     concat (map (\<lambda>y. concat (map (\<lambda>x. saber_pixel res tSec opts x y) [0..<nat res]))
               [0..<nat res])"

section \<open>Sampling the outline mask and the turbulence field\<close>

definition clamp_coord :: "int \<Rightarrow> real \<Rightarrow> int" where
  \<comment> \<open>\<open>x < 0 ? 0 : x > n - 1 ? n - 1 : x | 0\<close>.\<close>
  "clamp_coord n x = (if x < 0 then 0 else if x > of_int n - 1 then n - 1 else to_int32 x)"

definition outline_index :: "int \<Rightarrow> int \<Rightarrow> real \<Rightarrow> real \<Rightarrow> int" where
  "outline_index outW outH x y =
     (let xi = clamp_coord outW x;
          yi = clamp_coord outH y
      in (yi * outW + xi) * 4 + 3)"

definition sampleOutlineAlphaNearest :: "nat list \<Rightarrow> int \<Rightarrow> int \<Rightarrow> real \<Rightarrow> real \<Rightarrow> nat option" where
  "sampleOutlineAlphaNearest outData outW outH x y = read_u8 outData (outline_index outW outH x y)"

record field =
  f_dx :: real
  f_dy :: real
  f_spark :: real
  f_fil :: real

definition field_channel ::
  "nat list \<Rightarrow> int \<Rightarrow> int \<Rightarrow> int \<Rightarrow> int \<Rightarrow> real \<Rightarrow> real \<Rightarrow> real \<Rightarrow> real \<Rightarrow> int \<Rightarrow> real option" where
  \<comment> \<open>One of the four weighted sums of \<open>sampleSaberField\<close>, for channel offset \<open>c\<close>.
      A read outside the buffer makes the sum NaN in the source; here it is \<open>None\<close>.\<close>
  "field_channel noiseData i00 i10 i01 i11 w00 w10 w01 w11 c =
     (case (read_u8 noiseData (i00 + c), read_u8 noiseData (i10 + c),
            read_u8 noiseData (i01 + c), read_u8 noiseData (i11 + c)) of
        (Some a, Some b, Some c', Some d) \<Rightarrow>
          Some ((real a * w00 + real b * w10 + real c' * w01 + real d * w11) / 255)
      | _ \<Rightarrow> None)"

definition sampleSaberField :: "nat list \<Rightarrow> int \<Rightarrow> real \<Rightarrow> real \<Rightarrow> field option" where
  "sampleSaberField noiseData res u v =
     (let x = u * (of_int res - 1);
          y = v * (of_int res - 1);
          x0 = \<lfloor>x\<rfloor>;
          y0 = \<lfloor>y\<rfloor>;
          x1 = min (res - 1) (x0 + 1);
          y1 = min (res - 1) (y0 + 1);
          tx = x - of_int x0;
          ty = y - of_int y0;
          w00 = (1 - tx) * (1 - ty);
          w10 = tx * (1 - ty);
          w01 = (1 - tx) * ty;
          w11 = tx * ty;
          i00 = (y0 * res + x0) * 4;
          i10 = (y0 * res + x1) * 4;
          i01 = (y1 * res + x0) * 4;
          i11 = (y1 * res + x1) * 4;
          ch = field_channel noiseData i00 i10 i01 i11 w00 w10 w01 w11
      in case (ch 0, ch 1, ch 2, ch 3) of
           (Some r, Some g, Some b, Some a) \<Rightarrow>
             Some \<lparr>f_dx = r * 2 - 1, f_dy = g * 2 - 1, f_spark = b, f_fil = a\<rparr>
         | _ \<Rightarrow> None)"

text \<open>
  The same function with the arithmetic of the source made explicit: \<open>rnd\<close> is applied to
  the exact result of every operation on numbers (the sums are taken left to right, as
  the source writes them). With the identity for \<open>rnd\<close> this is \<open>sampleSaberField\<close>; with
  \<open>b64\<close> it is what the source computes in binary64.
\<close>

definition field_channel_rnd ::
  "(real \<Rightarrow> real) \<Rightarrow> nat list \<Rightarrow> int \<Rightarrow> int \<Rightarrow> int \<Rightarrow> int \<Rightarrow> real \<Rightarrow> real \<Rightarrow> real \<Rightarrow> real \<Rightarrow> int
     \<Rightarrow> real option" where
  "field_channel_rnd rnd noiseData i00 i10 i01 i11 w00 w10 w01 w11 c =
     (case (read_u8 noiseData (i00 + c), read_u8 noiseData (i10 + c),
            read_u8 noiseData (i01 + c), read_u8 noiseData (i11 + c)) of
        (Some a, Some b, Some c', Some d) \<Rightarrow>
          Some (rnd (rnd (rnd (rnd (rnd (real a * w00) + rnd (real b * w10))
                               + rnd (real c' * w01))
                          + rnd (real d * w11))
                     / 255))
      | _ \<Rightarrow> None)"

definition sampleSaberField_rnd ::
  "(real \<Rightarrow> real) \<Rightarrow> nat list \<Rightarrow> int \<Rightarrow> real \<Rightarrow> real \<Rightarrow> field option" where
  "sampleSaberField_rnd rnd noiseData res u v =
     (let x = rnd (u * (of_int res - 1));
          y = rnd (v * (of_int res - 1));
          x0 = \<lfloor>x\<rfloor>;
          y0 = \<lfloor>y\<rfloor>;
          x1 = min (res - 1) (x0 + 1);
          y1 = min (res - 1) (y0 + 1);
          tx = rnd (x - of_int x0);
          ty = rnd (y - of_int y0);
          w00 = rnd (rnd (1 - tx) * rnd (1 - ty));
          w10 = rnd (tx * rnd (1 - ty));
          w01 = rnd (rnd (1 - tx) * ty);
          w11 = rnd (tx * ty);
          i00 = (y0 * res + x0) * 4;
          i10 = (y0 * res + x1) * 4;
          i01 = (y1 * res + x0) * 4;
          i11 = (y1 * res + x1) * 4;
          ch = field_channel_rnd rnd noiseData i00 i10 i01 i11 w00 w10 w01 w11
      in case (ch 0, ch 1, ch 2, ch 3) of
           (Some r, Some g, Some b, Some a) \<Rightarrow>
             Some \<lparr>f_dx = rnd (rnd (r * 2) - 1), f_dy = rnd (rnd (g * 2) - 1),
                   f_spark = b, f_fil = a\<rparr>
         | _ \<Rightarrow> None)"

section \<open>Energy mask compositor\<close>

record energy_opts =
  eo_amp :: real
  eo_gain :: real
  eo_cut :: real
  eo_sharpPow :: real

record outline_obj =
  o_data :: "nat list"
  o_w :: int
  o_h :: int

record noise_state =
  n_data :: "nat list"
  n_res :: int

definition energy_coord :: "int \<Rightarrow> int \<Rightarrow> real" where
  \<comment> \<open>The normalised position \<open>x * invW\<close> of column (or row) \<open>x\<close> of an energy buffer
      \<open>w\<close> pixels wide (or high), with \<open>invW = 1 / Math.max(1, w - 1)\<close>, in binary64.\<close>
  "energy_coord w x = b64 (of_int x * b64 (1 / of_int (max 1 (w - 1))))"

definition energy_sample ::
  "nat \<Rightarrow> nat \<Rightarrow> outline_obj \<Rightarrow> noise_state \<Rightarrow> real \<Rightarrow> energy_opts \<Rightarrow> nat \<Rightarrow> nat
     \<Rightarrow> (field \<times> nat) option" where
  \<comment> \<open>First half of the loop body of \<open>renderSaberEnergyMask\<close> at column \<open>x\<close>, row \<open>y\<close> of a
      \<open>w \<times> h\<close> energy buffer: the turbulence field there and \<open>oa\<close>, the outline alpha at the
      displaced coordinate mapped into outline space.\<close>
  "energy_sample w h outlineObj noiseState tSec opts x y =
     (let invW = 1 / max 1 (real w - 1);
          invH = 1 / max 1 (real h - 1);
          v = real y * invH;
          wave = sin ((v * 14 + tSec * 3.0) * 1.0) * 0.55;
          u = real x * invW
      in case sampleSaberField (n_data noiseState) (n_res noiseState) u v of
           None \<Rightarrow> None
         | Some fld \<Rightarrow>
             (let sx = real x + f_dx fld * eo_amp opts + wave;
                  sy = real y + f_dy fld * eo_amp opts;
                  ox = sx * (of_int (o_w outlineObj) / real w);
                  oy = sy * (of_int (o_h outlineObj) / real h)
              in case sampleOutlineAlphaNearest (o_data outlineObj) (o_w outlineObj)
                        (o_h outlineObj) ox oy of
                   None \<Rightarrow> None
                 | Some oa \<Rightarrow> Some (fld, oa)))"

definition energy_pixel ::
  "nat \<Rightarrow> nat \<Rightarrow> outline_obj \<Rightarrow> noise_state \<Rightarrow> real \<Rightarrow> energy_opts \<Rightarrow> nat \<Rightarrow> nat
     \<Rightarrow> nat list option" where
  \<comment> \<open>The four bytes the loop body stores for the pixel.\<close>
  "energy_pixel w h outlineObj noiseState tSec opts x y =
     (case energy_sample w h outlineObj noiseState tSec opts x y of
        None \<Rightarrow> None
      | Some (fld, oa) \<Rightarrow>
          if oa = 0 then Some [0, 0, 0, 0]
          else
            (let crawl = 0.45 + 0.35 * sin (tSec * 2.8);
                 base = real oa / 255;
                 strand0 = clamp01 ((f_fil fld - eo_cut opts) * 1.35);
                 strand = strand0 powr eo_sharpPow opts;
                 sprk = f_spark fld powr 1.25;
                 hf = 0.82 + 0.18 * sin (tSec * 13.0 + (real x + real y) * 0.015 + crawl);
                 intensity = clamp01 (strand * 0.95 + sprk * 0.8);
                 a = clamp01 (base * (0.14 + intensity) * eo_gain opts * hf)
             in Some [255, 255, 255, store_u8 (to_int32 (a * 255))]))"

definition energy_pixels ::
  "nat \<Rightarrow> nat \<Rightarrow> outline_obj \<Rightarrow> noise_state \<Rightarrow> real \<Rightarrow> energy_opts \<Rightarrow> nat list option list" where
  \<comment> \<open>The two nested loops, rows outermost.\<close>
  "energy_pixels w h outlineObj noiseState tSec opts =
     concat (map (\<lambda>y. map (\<lambda>x. energy_pixel w h outlineObj noiseState tSec opts x y) [0..<w])
               [0..<h])"

definition renderSaberEnergyMask ::
  "nat \<Rightarrow> nat \<Rightarrow> outline_obj \<Rightarrow> noise_state \<Rightarrow> real \<Rightarrow> energy_opts \<Rightarrow> nat list option" where
  \<comment> \<open>The new contents of the energy buffer (\<open>p\<close> advances by four per pixel), or \<open>None\<close>
      when some read fell outside a buffer.\<close>
  "renderSaberEnergyMask w h outlineObj noiseState tSec opts =
     map_option concat (those (energy_pixels w h outlineObj noiseState tSec opts))"

section \<open>Region classification\<close>

record mask_canvas =
  m_width :: int
  m_height :: int
  m_data :: "nat list"

definition insideFactory :: "mask_canvas \<Rightarrow> real \<Rightarrow> real \<Rightarrow> bool" where
  \<comment> \<open>The closure returned by \<open>insideFactory(maskCanvas)\<close>; \<open>undefined > 0\<close> is false.\<close>
  "insideFactory maskCanvas x y =
     (let xi = max 0 (min (m_width maskCanvas - 1) (js_round x));
          yi = max 0 (min (m_height maskCanvas - 1) (js_round y))
      in case read_u8 (m_data maskCanvas) ((yi * m_width maskCanvas + xi) * 4 + 3) of
           Some a \<Rightarrow> a > 0
         | None \<Rightarrow> False)"

datatype bucket = Body | Hair | Headband | Beak | Feet

record tile =
  t_kind :: string
  t_text :: string
  t_x :: real
  t_y :: real

definition bucket_of ::
  "bool \<Rightarrow> mask_canvas \<Rightarrow> mask_canvas option \<Rightarrow> mask_canvas \<Rightarrow> mask_canvas \<Rightarrow> tile \<Rightarrow> bucket" where
  \<comment> \<open>The \<open>if\<close>/\<open>else if\<close> chain that chooses the layer of a text tile.\<close>
  "bucket_of headbandActive hairMask headbandMask beakMask feetMask it =
     (let inHair = insideFactory hairMask;
          inHeadband = (case headbandMask of
                          Some m \<Rightarrow> if headbandActive then Some (insideFactory m) else None
                        | None \<Rightarrow> None);
          inBeak = insideFactory beakMask;
          inFeet = insideFactory feetMask
      in if inHair (t_x it) (t_y it) then Hair
         else if headbandActive
                 \<and> (case inHeadband of Some f \<Rightarrow> f (t_x it) (t_y it) | None \<Rightarrow> False)
              then Headband
         else if inBeak (t_x it) (t_y it) then Beak
         else if inFeet (t_x it) (t_y it) then Feet
         else Body)"

definition draw_names ::
  "bool \<Rightarrow> mask_canvas \<Rightarrow> mask_canvas option \<Rightarrow> mask_canvas \<Rightarrow> mask_canvas \<Rightarrow> tile list
     \<Rightarrow> (bucket \<times> tile) list" where
  \<comment> \<open>The loop over \<open>items\<close>: the \<open>fillText\<close> calls in order, each with the layer it draws
      into; items whose kind is not \<open>text\<close> are skipped.\<close>
  "draw_names headbandActive hairMask headbandMask beakMask feetMask items =
     map (\<lambda>it. (bucket_of headbandActive hairMask headbandMask beakMask feetMask it, it))
       (filter (\<lambda>it. t_kind it = ''text'') items)"

section \<open>Final stage: masks, layers and the composite\<close>

record plan =
  p_isPreview :: bool
  p_width :: int
  p_height :: int
  p_items :: "tile list"
  p_unlockHeadbandTails :: "bool option"

text \<open>
  A loaded mask bitmap is represented by the RGBA bytes it rasterises to at the plan's
  size (what \<open>drawImage\<close> followed by \<open>getImageData\<close> gives); \<open>None\<close> is a bitmap that is
  not loaded (\<open>null\<close> in the component state).
\<close>

record mask_bitmaps =
  b_silhouette :: "nat list option"
  b_hair :: "nat list option"
  b_headband :: "nat list option"
  b_beak :: "nat list option"
  b_feet :: "nat list option"
  b_eyes :: "nat list option"
  b_pupils :: "nat list option"
  b_nostrils :: "nat list option"
  b_outline :: "nat list option"

definition alpha_mask :: "nat list \<Rightarrow> int \<Rightarrow> int \<Rightarrow> nat \<Rightarrow> mask_canvas" where
  \<comment> \<open>The canvas \<open>bitmapToAlphaMaskCanvas(bitmap, w, h, 1, threshold)\<close> returns.\<close>
  "alpha_mask raster w h threshold =
     \<lparr>m_width = js_round (of_int w * 1), m_height = js_round (of_int h * 1),
      m_data = bitmapToAlphaMaskCanvas raster threshold\<rparr>"

datatype mask_id =
  SilMask | HeadbandMask | OutlineMask | EyesMaskTop | EyesMaskRaw | PupilsMask | NostrilsMask

datatype draw_cmd =
  MaskFill mask_id "nat \<times> nat \<times> nat" real "(string \<times> nat) option"
    \<comment> \<open>a solid colour filled through a mask with an alpha, under the context's shadow
        colour and blur (\<open>None\<close>: no shadow)\<close>
| NeonLayer bucket real
    \<comment> \<open>\<open>drawLayerNeon\<close> of a region's text layer with an intensity\<close>

definition drawMaskFill1x ::
  "bool \<Rightarrow> mask_id \<Rightarrow> nat \<times> nat \<times> nat \<Rightarrow> real \<Rightarrow> (string \<times> nat) option \<Rightarrow> draw_cmd list" where
  \<comment> \<open>What \<open>drawMaskFill1x\<close> draws on the target context: nothing when the mask is missing
      or the alpha is not positive.\<close>
  "drawMaskFill1x present m rgb alpha shadow =
     (if \<not> present \<or> alpha \<le> 0 then [] else [MaskFill m rgb alpha shadow])"

definition static_outline_glow :: draw_cmd where
  \<comment> \<open>The pass under the comment \<open>OUTLINE (static) - ONLY below 3.5k\<close>.\<close>
  "static_outline_glow =
     MaskFill OutlineMask (255, 255, 255) 0.95 (Some (''rgba(34,211,238,0.55)'', 18))"

record final_result =
  fs_names :: "(bucket \<times> tile) list"
  fs_cmds :: "draw_cmd list"

definition final_stage :: "plan option \<Rightarrow> mask_bitmaps \<Rightarrow> int \<Rightarrow> int \<Rightarrow> final_result option" where
  \<comment> \<open>The final-stage effect up to the composed buffer: \<open>None\<close> when it returns before
      composing; otherwise the text drawn into the region layers and the passes drawn,
      in order, into the final buffer.\<close>
  "final_stage plan maskBitmaps total' CAP =
     (case plan of
        None \<Rightarrow> None
      | Some pl \<Rightarrow>
          if p_isPreview pl then None
          else
            (let headbandActive =
                   (case p_unlockHeadbandTails pl of Some b \<Rightarrow> b | None \<Rightarrow> total' \<ge> 1500);
                 need = [b_silhouette, b_hair] @ (if headbandActive then [b_headband] else [])
                          @ [b_beak, b_feet, b_eyes, b_pupils, b_nostrils]
             in if \<not> list_all (\<lambda>k. k maskBitmaps \<noteq> None) need then None
                else
                  (let w = p_width pl;
                       h = p_height pl;
                       energyActive = (total' \<ge> CAP);
                       hairMask = alpha_mask (the (b_hair maskBitmaps)) w h 0;
                       headbandMask =
                         (if headbandActive
                          then Some (alpha_mask (the (b_headband maskBitmaps)) w h 0) else None);
                       beakMask = alpha_mask (the (b_beak maskBitmaps)) w h 0;
                       feetMask = alpha_mask (the (b_feet maskBitmaps)) w h 0;
                       outlineMask =
                         (case b_outline maskBitmaps of
                            Some r \<Rightarrow> Some (alpha_mask r w h 12) | None \<Rightarrow> None);
                       hb = (headbandActive \<and> headbandMask \<noteq> None);
                       detailsAlpha = max 0 (min 1 (of_int total' / 1000))
                   in Some
                        \<lparr>fs_names =
                           draw_names headbandActive hairMask headbandMask beakMask feetMask
                             (p_items pl),
                         fs_cmds =
                           drawMaskFill1x True SilMask (255, 255, 255) 0.12 None
                           @ (if hb
                              then drawMaskFill1x True HeadbandMask (255, 60, 90) 0.14
                                     (Some (''rgba(255, 70, 110, 0.60)'', 26))
                              else [])
                           @ [NeonLayer Body 1.05, NeonLayer Beak 0.95, NeonLayer Feet 0.95]
                           @ (if hb then [NeonLayer Headband 1.0] else [])
                           @ [NeonLayer Hair 0.95]
                           @ (if outlineMask \<noteq> None \<and> \<not> energyActive
                              then drawMaskFill1x True OutlineMask (255, 255, 255) 0.95
                                     (Some (''rgba(34,211,238,0.55)'', 18))
                              else [])
                           @ drawMaskFill1x True EyesMaskTop (255, 255, 255) 1 None
                           @ drawMaskFill1x True EyesMaskRaw (255, 255, 255) 1 None
                           @ drawMaskFill1x True PupilsMask (17, 24, 39) detailsAlpha None
                           @ drawMaskFill1x True NostrilsMask (17, 24, 39) detailsAlpha None\<rparr>)))"

section \<open>Crossfade from the preview buffer to the final buffer\<close>

text \<open>
  A buffer as it appears on the visible surface (after \<open>drawImage\<close> has resampled it to
  the surface's size) is a list of premultiplied RGBA pixels. \<open>draw_image\<close> is
  \<open>drawImage\<close> under \<open>globalAlpha = ga\<close> with the default source-over compositing.
\<close>

type_synonym pixel = "real \<times> real \<times> real \<times> real"

definition over :: "real \<Rightarrow> pixel \<Rightarrow> pixel \<Rightarrow> pixel" where
  "over ga src dst =
     (case src of (sr, sg, sb, sa) \<Rightarrow> case dst of (dr, dg, db, da) \<Rightarrow>
        (let k = 1 - sa * ga
         in (sr * ga + dr * k, sg * ga + dg * k, sb * ga + db * k, sa * ga + da * k)))"

definition draw_image :: "real \<Rightarrow> pixel list \<Rightarrow> pixel list \<Rightarrow> pixel list" where
  "draw_image ga src dst = map2 (over ga) src dst"

definition clearRect :: "nat \<Rightarrow> pixel list" where
  "clearRect n = replicate n (0, 0, 0, 0)"

definition blitBufferToVisible :: "bool \<Rightarrow> pixel list option \<Rightarrow> pixel list option" where
  \<comment> \<open>The surface after \<open>blitBufferToVisible(buf)\<close>; \<open>None\<close>: nothing is drawn (canvas or
      frame not mounted, or no buffer).\<close>
  "blitBufferToVisible mounted buf =
     (case buf of
        None \<Rightarrow> None
      | Some b \<Rightarrow> if \<not> mounted then None else Some (draw_image 1 b (clearRect (length b))))"

definition DURATION :: real where
  "DURATION = 380"

definition fade_t :: "real \<Rightarrow> real \<Rightarrow> real" where
  \<comment> \<open>\<open>Math.min(1, (performance.now() - start) / DURATION)\<close>.\<close>
  "fade_t start now = min 1 ((now - start) / DURATION)"

definition fade_alpha_from :: "real \<Rightarrow> real" where
  \<comment> \<open>The \<open>globalAlpha\<close> under which \<open>from\<close> (the preview buffer) is drawn.\<close>
  "fade_alpha_from t = 1 - t * t"

definition fade_alpha_final :: "real \<Rightarrow> real" where
  \<comment> \<open>The \<open>globalAlpha\<close> under which \<open>final\<close> is drawn.\<close>
  "fade_alpha_final t = t * t"

record fade_step =
  fd_surface :: "pixel list"
  fd_again :: bool
  fd_hasFinal :: bool

definition fade :: "bool \<Rightarrow> pixel list \<Rightarrow> pixel list \<Rightarrow> real \<Rightarrow> real \<Rightarrow> fade_step option" where
  \<comment> \<open>One call of \<open>fade()\<close> at time \<open>now\<close>: the surface it leaves, whether it requests
      another animation frame, and whether it sets \<open>hasFinal\<close>.\<close>
  "fade mounted from final start now =
     (if \<not> mounted then None
      else
        (let t = fade_t start now;
             s0 = clearRect (length from);
             s1 = draw_image (fade_alpha_from t) from s0;
             s2 = draw_image (fade_alpha_final t) final s1
         in Some \<lparr>fd_surface = s2, fd_again = (t < 1), fd_hasFinal = \<not> (t < 1)\<rparr>))"

text \<open>
  \<open>fade()\<close> is called at the end of the final-stage effect, in the commit in which that
  effect finds the full plan and all required masks; \<open>hasFinal\<close> is false then (it is
  false from the mount and is reset when a plan is promoted). The energy effect is
  declared after the final-stage effect and runs in the same commit when one of its own
  dependencies (\<open>hasFinal\<close>, \<open>total\<close>, \<open>CAP\<close>, \<open>plan\<close>) has changed. With \<open>hasFinal\<close> false it
  takes its first branch, \<open>blitBufferToVisible(finalBufferRef.current || previewBufferRef.current)\<close>.
\<close>

definition energy_idle_blit ::
  "bool \<Rightarrow> pixel list option \<Rightarrow> pixel list option \<Rightarrow> pixel list \<Rightarrow> pixel list" where
  \<comment> \<open>The first branch of the energy effect, applied to the visible surface.\<close>
  "energy_idle_blit mounted finalBuf previewBuf surface =
     (case blitBufferToVisible mounted (case finalBuf of Some b \<Rightarrow> Some b | None \<Rightarrow> previewBuf) of
        Some s \<Rightarrow> s
      | None \<Rightarrow> surface)"

definition transition_commit ::
  "bool \<Rightarrow> pixel list \<Rightarrow> pixel list \<Rightarrow> real \<Rightarrow> real \<Rightarrow> bool \<Rightarrow> pixel list option" where
  \<comment> \<open>The visible surface at the end of the commit that starts the fade: the final stage
      has stored \<open>final\<close> in \<open>finalBufferRef\<close> and called \<open>fade()\<close> at time \<open>now\<close>;
      \<open>energyRuns\<close> tells whether the energy effect runs in this commit.\<close>
  "transition_commit mounted from final start now energyRuns =
     (case fade mounted from final start now of
        None \<Rightarrow> None
      | Some s \<Rightarrow>
          Some (if energyRuns then energy_idle_blit mounted (Some final) (Some from) (fd_surface s)
                else fd_surface s))"

section \<open>Energy phase: working resolution and the frame loop\<close>

definition energyScale :: "int \<Rightarrow> int \<Rightarrow> real" where
  "energyScale w h = (let maxDim = max w h in max 0.7 (min 1 (520 / of_int maxDim)))"

definition energy_size :: "int \<Rightarrow> int \<Rightarrow> int \<times> int" where
  \<comment> \<open>\<open>(eW, eH)\<close>, the size of the energy canvas for a \<open>w \<times> h\<close> plan.\<close>
  "energy_size w h =
     (max 1 (js_round (of_int w * energyScale w h)),
      max 1 (js_round (of_int h * energyScale w h)))"

record energy_env =
  e_prefersReduced :: bool
  e_hasFinal :: bool
  e_total :: int
  e_CAP :: int
  e_base :: bool
  e_plan :: bool
  e_outlineData :: bool
  e_mounted :: bool

record energy_loop =
  l_pending :: bool
  l_frames :: "real list"
  l_blits :: nat

definition drawFrame :: "energy_env \<Rightarrow> real \<Rightarrow> energy_loop \<Rightarrow> energy_loop" where
  \<comment> \<open>One energy frame at time \<open>tNow\<close>; nothing when canvas or frame is not mounted.\<close>
  "drawFrame env tNow st =
     (if \<not> e_mounted env then st else st\<lparr>l_frames := l_frames st @ [tNow]\<rparr>)"

definition energy_effect :: "energy_env \<Rightarrow> real \<Rightarrow> energy_loop \<Rightarrow> energy_loop" where
  \<comment> \<open>The body of the energy effect, run at time \<open>now\<close>. \<open>l_pending\<close> says whether a
      \<open>tick\<close> callback is scheduled under \<open>rafEnergyRef\<close>.\<close>
  "energy_effect env now st =
     (let st1 = st\<lparr>l_pending := False\<rparr>;
          energyActive = (e_total env \<ge> e_CAP env)
      in if \<not> e_hasFinal env \<or> \<not> energyActive \<or> \<not> e_base env \<or> \<not> e_plan env
         then st1\<lparr>l_blits := Suc (l_blits st1)\<rparr>
         else if \<not> e_outlineData env then st1
         else if e_prefersReduced env then drawFrame env now st1
         else st1\<lparr>l_pending := True\<rparr>)"

definition tick :: "energy_env \<Rightarrow> real \<Rightarrow> energy_loop \<Rightarrow> energy_loop" where
  \<comment> \<open>The \<open>tick\<close> callback: draw, then request the next animation frame.\<close>
  "tick env now st = (drawFrame env now st)\<lparr>l_pending := True\<rparr>"

definition animation_frame :: "energy_env \<Rightarrow> real \<Rightarrow> energy_loop \<Rightarrow> energy_loop" where
  \<comment> \<open>One display frame at time \<open>now\<close>: the scheduled callback, if any, runs once.\<close>
  "animation_frame env now st = (if l_pending st then tick env now (st\<lparr>l_pending := False\<rparr>) else st)"

fun run_frames :: "energy_env \<Rightarrow> real list \<Rightarrow> energy_loop \<Rightarrow> energy_loop" where
  "run_frames env [] st = st"
| "run_frames env (now # rest) st = run_frames env rest (animation_frame env now st)"

section \<open>The region order as the specification words it\<close>

definition spec_priority ::
  "bool \<Rightarrow> mask_canvas \<Rightarrow> mask_canvas option \<Rightarrow> mask_canvas \<Rightarrow> mask_canvas
     \<Rightarrow> (bucket \<times> mask_canvas) list" where
  \<comment> \<open>The fixed priority order of the specification: hair, then headband (only when it
      is active and has a mask), then beak, then feet.\<close>
  "spec_priority headbandActive hairMask headbandMask beakMask feetMask =
     [(Hair, hairMask)]
     @ (case headbandMask of
          Some m \<Rightarrow> if headbandActive then [(Headband, m)] else []
        | None \<Rightarrow> [])
     @ [(Beak, beakMask), (Feet, feetMask)]"

definition spec_classify :: "(bucket \<times> mask_canvas) list \<Rightarrow> real \<Rightarrow> real \<Rightarrow> bucket" where
  \<comment> \<open>First match wins; body when no region matches.\<close>
  "spec_classify regions x y =
     (case find (\<lambda>(b, m). insideFactory m x y) regions of
        Some (b, m) \<Rightarrow> b
      | None \<Rightarrow> Body)"

section \<open>Reading the composite\<close>

definition draws_through :: "mask_id \<Rightarrow> draw_cmd list \<Rightarrow> bool" where
  \<comment> \<open>Some pass of the composite fills through the given mask.\<close>
  "draws_through m cmds =
     list_ex (\<lambda>c. case c of MaskFill m' rgb a sh \<Rightarrow> m' = m | NeonLayer b i \<Rightarrow> False) cmds"

section \<open>Concrete scenarios\<close>

definition opaque_pixel_mask :: mask_canvas where
  "opaque_pixel_mask = \<lparr>m_width = 1, m_height = 1, m_data = [0, 0, 0, 255]\<rparr>"

definition empty_pixel_mask :: mask_canvas where
  "empty_pixel_mask = \<lparr>m_width = 1, m_height = 1, m_data = [0, 0, 0, 0]\<rparr>"

definition tile0 :: tile where
  "tile0 = \<lparr>t_kind = ''text'', t_text = ''a'', t_x = 0.2, t_y = 0.3\<rparr>"

definition plan0 :: plan where
  "plan0 = \<lparr>p_isPreview = False, p_width = 1, p_height = 1, p_items = [tile0],
            p_unlockHeadbandTails = None\<rparr>"

definition masks_with_outline :: mask_bitmaps where
  "masks_with_outline =
     \<lparr>b_silhouette = Some [255, 255, 255, 255], b_hair = Some [0, 0, 0, 255],
      b_headband = Some [0, 0, 0, 255], b_beak = Some [0, 0, 0, 255],
      b_feet = Some [0, 0, 0, 255],
      b_eyes = Some [0, 0, 0, 255], b_pupils = Some [0, 0, 0, 255],
      b_nostrils = Some [0, 0, 0, 255], b_outline = Some [255, 255, 255, 255]\<rparr>"

definition masks_no_outline :: mask_bitmaps where
  \<comment> \<open>The outline image failed to load; it is not among the images the final stage waits for.\<close>
  "masks_no_outline = masks_with_outline\<lparr>b_outline := None\<rparr>"

definition saber_opts0 :: saber_opts where
  \<comment> \<open>The defaults of \<open>renderSaberFields\<close>.\<close>
  "saber_opts0 = \<lparr>so_seed = 7331, so_dispScale = 2.15, so_filScale = 7.6, so_octDisp = 3,
                   so_octFil = 4, so_flowX = 0.28, so_flowY = 0.22\<rparr>"

definition outline1 :: outline_obj where
  "outline1 = \<lparr>o_data = [0, 0, 0, 0], o_w = 1, o_h = 1\<rparr>"

definition noise1 :: noise_state where
  "noise1 = \<lparr>n_data = [0, 128, 255, 7], n_res = 1\<rparr>"

definition energy_opts0 :: energy_opts where
  "energy_opts0 = \<lparr>eo_amp = 3.6, eo_gain = 1.15, eo_cut = 0.16, eo_sharpPow = 1.9\<rparr>"

definition env_energy :: "bool \<Rightarrow> energy_env" where
  \<comment> \<open>Population 4000 with threshold 3500, final buffer shown, everything mounted.\<close>
  "env_energy reduced =
     \<lparr>e_prefersReduced = reduced, e_hasFinal = True, e_total = 4000, e_CAP = 3500,
      e_base = True, e_plan = True, e_outlineData = True, e_mounted = True\<rparr>"

definition loop0 :: energy_loop where
  "loop0 = \<lparr>l_pending = False, l_frames = [], l_blits = 0\<rparr>"

section \<open>Properties of the 32-bit conversions\<close>

lemma sint_word_of_int_32:
  assumes "- (2 ^ 31) \<le> k" "k < 2 ^ 31"
  shows "sint (word_of_int k :: int32) = k"
  using assms by (simp add: signed_of_int signed_take_bit_int_eq_self)

lemma to_int32_floor:
  assumes "0 \<le> x" "x < 2 ^ 31"
  shows "to_int32 x = \<lfloor>x\<rfloor>"
proof -
  have "0 \<le> \<lfloor>x\<rfloor>" using assms(1) by simp
  moreover have "\<lfloor>x\<rfloor> < 2 ^ 31" using assms(2) by (simp add: floor_less_iff)
  ultimately show ?thesis
    using assms(1) by (simp add: to_int32_def js_trunc_def sint_word_of_int_32)
qed

lemma to_int32_ceiling:
  assumes "x \<le> 0" "- (2 ^ 31) \<le> x"
  shows "to_int32 x = \<lceil>x\<rceil>"
proof -
  have "\<lceil>x\<rceil> \<le> 0" using assms(1) by (simp add: ceiling_le_iff)
  moreover have "- (2 ^ 31) \<le> \<lceil>x\<rceil>" using assms(2) by (simp add: le_ceiling_iff)
  ultimately show ?thesis
    using assms(1) by (cases "x = 0") (simp_all add: to_int32_def js_trunc_def sint_word_of_int_32)
qed

section \<open>The hash\<close>

text \<open>
  C6. \<open>hash2i\<close> is a function of its three arguments alone (it reads and writes no
  state, so equal inputs give the equal output), and its result lies in the closed
  interval \<open>[0,1]\<close>. The interval is not half-open: the divisor is \<open>2^32 - 1\<close>, and the
  mixed word can be \<open>2^32 - 1\<close>.
\<close>

theorem hash2i_closed_unit_interval:
  "0 \<le> hash2i x y seed \<and> hash2i x y seed \<le> 1"
proof -
  have "unat (hash2i_bits x y seed) < 2 ^ 32"
    using unsigned_less [of "hash2i_bits x y seed", where ?'a = nat] by simp
  then have "unat (hash2i_bits x y seed) \<le> 4294967295" by simp
  then have "real (unat (hash2i_bits x y seed)) \<le> real 4294967295"
    by (rule of_nat_mono)
  then show ?thesis unfolding hash2i_def by (simp del: of_nat_unat)
qed

lemma hash2i_bits_all_ones: "hash2i_bits 1624197535 0 1337 = 4294967295"
  by code_simp

text \<open>With the default seed 1337 the hash of the point \<open>(1624197535, 0)\<close> is exactly 1.\<close>

theorem hash2i_reaches_one: "\<not> hash2i 1624197535 0 1337 < 1"
  unfolding hash2i_def hash2i_bits_all_ones by simp

section \<open>Alpha masks\<close>

lemma lum709_black: "lum709 0 0 0 = 0"
  by code_simp

lemma lum709_white: "lum709 255 255 255 = 254"
  by code_simp

lemma alpha_loop_length: "length (alpha_loop threshold d) = length d"
  by (induction threshold d rule: alpha_loop.induct) (simp_all add: Let_def)

text \<open>
  C5. On a white pixel the binary64 sum \<open>0.2126 * 255 + 0.7152 * 255 + 0.0722 * 255\<close> is
  \<open>254.99999999999997\<close>, which \<open>| 0\<close> truncates to 254: with threshold 0 a white source
  pixel gets alpha 254, not 255 (a black one gets alpha 0, and the colour channels are
  zeroed).
\<close>

theorem bitmapToAlphaMaskCanvas_white_black:
  "bitmapToAlphaMaskCanvas [255, 255, 255, 255, 0, 0, 0, 255] 0 = [0, 0, 0, 254, 0, 0, 0, 0]"
  by (simp add: bitmapToAlphaMaskCanvas_def lum709_white lum709_black)

section \<open>Sampling the outline mask\<close>

lemma clamp_coord_range:
  assumes "1 \<le> n" "n \<le> 2 ^ 31"
  shows "0 \<le> clamp_coord n x \<and> clamp_coord n x \<le> n - 1"
proof (cases "x < 0 \<or> x > of_int n - 1")
  case True
  then show ?thesis using assms by (auto simp: clamp_coord_def)
next
  case False
  then have x: "0 \<le> x" "x \<le> of_int n - 1" by auto
  have "of_int n \<le> (2 ^ 31 :: real)"
    using assms(2) by (metis of_int_le_iff of_int_numeral of_int_power)
  then have "x < 2 ^ 31" using x(2) by linarith
  then have "clamp_coord n x = \<lfloor>x\<rfloor>"
    using False x by (simp add: clamp_coord_def to_int32_floor)
  moreover have "0 \<le> \<lfloor>x\<rfloor>" using x(1) by simp
  moreover have "\<lfloor>x\<rfloor> \<le> n - 1"
  proof -
    have "x \<le> of_int (n - 1)" using x(2) by simp
    then show ?thesis by (simp add: floor_le_iff del: of_int_diff) linarith
  qed
  ultimately show ?thesis by simp
qed

lemma pixel_index_range:
  fixes xi yi W H c :: int
  assumes "0 \<le> xi" "xi \<le> W - 1" "0 \<le> yi" "yi \<le> H - 1" "0 \<le> c" "c \<le> 3"
  shows "0 \<le> (yi * W + xi) * 4 + c \<and> (yi * W + xi) * 4 + c < W * H * 4"
proof -
  have W: "0 \<le> W" using assms by linarith
  have a: "0 \<le> yi * W" using assms W by simp
  have "yi * W \<le> (H - 1) * W" using assms W by (intro mult_right_mono) auto
  then have b: "yi * W + xi \<le> W * H - 1" using assms by (simp add: algebra_simps)
  define p where "p = yi * W + xi"
  define q where "q = W * H"
  have "0 \<le> p" "p \<le> q - 1" using a b assms by (simp_all add: p_def q_def)
  then have "0 \<le> p * 4 + c \<and> p * 4 + c < q * 4" using assms(5,6) by auto
  then show ?thesis by (simp add: p_def q_def)
qed

lemma outline_read_in_bounds:
  assumes "1 \<le> outW" "outW \<le> 2 ^ 31" "1 \<le> outH" "outH \<le> 2 ^ 31"
    and "int (length outData) = outW * outH * 4"
  shows "0 \<le> clamp_coord outW x \<and> clamp_coord outW x \<le> outW - 1
       \<and> 0 \<le> clamp_coord outH y \<and> clamp_coord outH y \<le> outH - 1
       \<and> 0 \<le> outline_index outW outH x y
       \<and> outline_index outW outH x y < int (length outData)
       \<and> sampleOutlineAlphaNearest outData outW outH x y
           = Some (outData ! nat (outline_index outW outH x y))"
proof -
  have cx: "0 \<le> clamp_coord outW x \<and> clamp_coord outW x \<le> outW - 1"
    using assms(1,2) by (rule clamp_coord_range)
  have cy: "0 \<le> clamp_coord outH y \<and> clamp_coord outH y \<le> outH - 1"
    using assms(3,4) by (rule clamp_coord_range)
  have "0 \<le> (clamp_coord outH y * outW + clamp_coord outW x) * 4 + 3
       \<and> (clamp_coord outH y * outW + clamp_coord outW x) * 4 + 3 < outW * outH * 4"
    using cx cy by (intro pixel_index_range) auto
  then have idx: "0 \<le> outline_index outW outH x y"
      "outline_index outW outH x y < int (length outData)"
    using assms(5) by (simp_all add: outline_index_def)
  then have "sampleOutlineAlphaNearest outData outW outH x y
           = Some (outData ! nat (outline_index outW outH x y))"
    by (simp add: sampleOutlineAlphaNearest_def read_u8_def)
  with cx cy idx show ?thesis by simp
qed

text \<open>
  C9. For an outline buffer of \<open>outW \<times> outH\<close> whole pixels (both at least 1 and at most
  \<open>2^31\<close>, so that \<open>| 0\<close> does not wrap) and every real coordinate \<open>(x, y)\<close>, negative or
  beyond the buffer included, \<open>sampleOutlineAlphaNearest\<close> clamps the column into
  \<open>[0, outW - 1]\<close> and the row into \<open>[0, outH - 1]\<close>, its index lies inside the buffer, and
  it returns the byte stored there.
\<close>

theorem sampleOutlineAlphaNearest_in_bounds:
  assumes "1 \<le> outW" "outW \<le> 2 ^ 31" "1 \<le> outH" "outH \<le> 2 ^ 31"
    and "int (length outData) = outW * outH * 4"
  shows "0 \<le> clamp_coord outW x \<and> clamp_coord outW x \<le> outW - 1
       \<and> 0 \<le> clamp_coord outH y \<and> clamp_coord outH y \<le> outH - 1
       \<and> 0 \<le> outline_index outW outH x y
       \<and> outline_index outW outH x y < int (length outData)
       \<and> sampleOutlineAlphaNearest outData outW outH x y
           = Some (outData ! nat (outline_index outW outH x y))"
  using assms by (rule outline_read_in_bounds)

theorem sampleOutlineAlphaNearest_in_bounds_witness:
  "(1::int) \<le> 2 \<and> (2::int) \<le> 2 ^ 31 \<and> (1::int) \<le> 1 \<and> (1::int) \<le> 2 ^ 31
   \<and> int (length [0, 0, 0, 5, 0, 0, 0, 9 :: nat]) = 2 * 1 * 4
   \<and> clamp_coord 2 (15 / 2) = 1 \<and> clamp_coord 1 (- 3) = 0
   \<and> sampleOutlineAlphaNearest [0, 0, 0, 5, 0, 0, 0, 9] 2 1 (15 / 2) (- 3) = Some 9"
  using sampleOutlineAlphaNearest_in_bounds [of 2 1 "[0, 0, 0, 5, 0, 0, 0, 9]" "15 / 2" "- 3"]
  by (simp add: outline_index_def clamp_coord_def)

section \<open>Sampling the turbulence field in exact arithmetic\<close>

lemma bilinear_convex:
  fixes a b c d tx ty :: real
  assumes "0 \<le> tx" "tx \<le> 1" "0 \<le> ty" "ty \<le> 1"
    and "0 \<le> a" "a \<le> 255" "0 \<le> b" "b \<le> 255" "0 \<le> c" "c \<le> 255" "0 \<le> d" "d \<le> 255"
  shows "0 \<le> (a * ((1 - tx) * (1 - ty)) + b * (tx * (1 - ty)) + c * ((1 - tx) * ty) + d * (tx * ty)) / 255
       \<and> (a * ((1 - tx) * (1 - ty)) + b * (tx * (1 - ty)) + c * ((1 - tx) * ty) + d * (tx * ty)) / 255 \<le> 1"
proof -
  define w00 where "w00 = (1 - tx) * (1 - ty)"
  define w10 where "w10 = tx * (1 - ty)"
  define w01 where "w01 = (1 - tx) * ty"
  define w11 where "w11 = tx * ty"
  have w: "0 \<le> w00" "0 \<le> w10" "0 \<le> w01" "0 \<le> w11"
    using assms(1-4) by (simp_all add: w00_def w10_def w01_def w11_def)
  have s: "w00 + w10 + w01 + w11 = 1"
    by (simp add: w00_def w10_def w01_def w11_def algebra_simps)
  have lo: "0 \<le> a * w00" "0 \<le> b * w10" "0 \<le> c * w01" "0 \<le> d * w11"
    using w assms(5-12) by simp_all
  have hi: "a * w00 \<le> 255 * w00" "b * w10 \<le> 255 * w10" "c * w01 \<le> 255 * w01" "d * w11 \<le> 255 * w11"
    using w assms(5-12) by (simp_all add: mult_right_mono)
  have "0 \<le> a * w00 + b * w10 + c * w01 + d * w11" using lo by linarith
  moreover have "a * w00 + b * w10 + c * w01 + d * w11 \<le> 255" using hi s by linarith
  ultimately show ?thesis
    unfolding w00_def w10_def w01_def w11_def by simp
qed

lemma read_u8_in_range:
  assumes "0 \<le> i" "i < int (length d)"
  shows "read_u8 d i = Some (d ! nat i)"
  using assms by (simp add: read_u8_def)

lemma field_channel_range:
  assumes len: "int (length nd) = res * res * 4"
    and bytes: "\<forall>b\<in>set nd. b \<le> 255"
    and x0: "0 \<le> x0" "x0 \<le> res - 1" and x1: "0 \<le> x1" "x1 \<le> res - 1"
    and y0: "0 \<le> y0" "y0 \<le> res - 1" and y1: "0 \<le> y1" "y1 \<le> res - 1"
    and t: "0 \<le> tx" "tx \<le> 1" "0 \<le> ty" "ty \<le> 1"
    and c: "0 \<le> c" "c \<le> 3"
  shows "\<exists>r. field_channel nd ((y0 * res + x0) * 4) ((y0 * res + x1) * 4)
              ((y1 * res + x0) * 4) ((y1 * res + x1) * 4)
              ((1 - tx) * (1 - ty)) (tx * (1 - ty)) ((1 - tx) * ty) (tx * ty) c = Some r
            \<and> 0 \<le> r \<and> r \<le> 1"
proof -
  have rd: "\<exists>a. read_u8 nd ((yy * res + xx) * 4 + c) = Some a \<and> a \<le> 255"
    if "0 \<le> xx" "xx \<le> res - 1" "0 \<le> yy" "yy \<le> res - 1" for xx yy
  proof -
    have i: "0 \<le> (yy * res + xx) * 4 + c \<and> (yy * res + xx) * 4 + c < res * res * 4"
      using that c by (intro pixel_index_range) auto
    then have "read_u8 nd ((yy * res + xx) * 4 + c) = Some (nd ! nat ((yy * res + xx) * 4 + c))"
      using len by (simp add: read_u8_in_range)
    moreover have "nat ((yy * res + xx) * 4 + c) < length nd" using i len by linarith
    then have "nd ! nat ((yy * res + xx) * 4 + c) \<le> 255" using bytes by simp
    ultimately show ?thesis by simp
  qed
  obtain a where a: "read_u8 nd ((y0 * res + x0) * 4 + c) = Some a" "a \<le> 255"
    using rd [OF x0 y0] by blast
  obtain b where b: "read_u8 nd ((y0 * res + x1) * 4 + c) = Some b" "b \<le> 255"
    using rd [OF x1 y0] by blast
  obtain c' where c': "read_u8 nd ((y1 * res + x0) * 4 + c) = Some c'" "c' \<le> 255"
    using rd [OF x0 y1] by blast
  obtain d where d: "read_u8 nd ((y1 * res + x1) * 4 + c) = Some d" "d \<le> 255"
    using rd [OF x1 y1] by blast
  define V where "V = (real a * ((1 - tx) * (1 - ty)) + real b * (tx * (1 - ty))
               + real c' * ((1 - tx) * ty) + real d * (tx * ty)) / 255"
  have bound: "0 \<le> V \<and> V \<le> 1"
    unfolding V_def using t a(2) b(2) c'(2) d(2) by (intro bilinear_convex) simp_all
  have eq: "field_channel nd ((y0 * res + x0) * 4) ((y0 * res + x1) * 4)
              ((y1 * res + x0) * 4) ((y1 * res + x1) * 4)
              ((1 - tx) * (1 - ty)) (tx * (1 - ty)) ((1 - tx) * ty) (tx * ty) c = Some V"
    unfolding field_channel_def a(1) b(1) c'(1) d(1) V_def by simp
  show ?thesis using eq bound by blast
qed

lemma lattice_range:
  fixes res :: int and u :: real
  assumes "1 \<le> res" "0 \<le> u" "u \<le> 1"
  shows "0 \<le> \<lfloor>u * (of_int res - 1)\<rfloor> \<and> \<lfloor>u * (of_int res - 1)\<rfloor> \<le> res - 1
       \<and> 0 \<le> min (res - 1) (\<lfloor>u * (of_int res - 1)\<rfloor> + 1)
       \<and> min (res - 1) (\<lfloor>u * (of_int res - 1)\<rfloor> + 1) \<le> res - 1
       \<and> 0 \<le> u * (of_int res - 1) - of_int \<lfloor>u * (of_int res - 1)\<rfloor>
       \<and> u * (of_int res - 1) - of_int \<lfloor>u * (of_int res - 1)\<rfloor> \<le> 1"
proof -
  define x where "x = u * (of_int res - 1)"
  have r: "0 \<le> (of_int res - 1 :: real)" using assms(1) by simp
  have x0: "0 \<le> x" using assms(2) r by (simp add: x_def)
  have "x \<le> 1 * (of_int res - 1)" unfolding x_def using assms(3) r by (rule mult_right_mono)
  then have x1: "x \<le> of_int (res - 1)" by simp
  have f0: "0 \<le> \<lfloor>x\<rfloor>" using x0 by simp
  have f1: "\<lfloor>x\<rfloor> \<le> res - 1" using x1 by (metis floor_mono floor_of_int)
  have "0 \<le> x - of_int \<lfloor>x\<rfloor> \<and> x - of_int \<lfloor>x\<rfloor> \<le> 1" by linarith
  with f0 f1 assms(1) show ?thesis unfolding x_def [symmetric] by simp
qed

lemma sampleSaberField_range:
  assumes "1 \<le> res" "int (length nd) = res * res * 4" "\<forall>b\<in>set nd. b \<le> 255"
    and "0 \<le> u" "u \<le> 1" "0 \<le> v" "v \<le> 1"
  shows "\<exists>f. sampleSaberField nd res u v = Some f
           \<and> - 1 \<le> f_dx f \<and> f_dx f \<le> 1 \<and> - 1 \<le> f_dy f \<and> f_dy f \<le> 1
           \<and> 0 \<le> f_spark f \<and> f_spark f \<le> 1 \<and> 0 \<le> f_fil f \<and> f_fil f \<le> 1"
proof -
  define x where "x = u * (of_int res - 1)"
  define y where "y = v * (of_int res - 1)"
  define x0 where "x0 = \<lfloor>x\<rfloor>"
  define y0 where "y0 = \<lfloor>y\<rfloor>"
  define x1 where "x1 = min (res - 1) (x0 + 1)"
  define y1 where "y1 = min (res - 1) (y0 + 1)"
  define tx where "tx = x - of_int x0"
  define ty where "ty = y - of_int y0"
  have X: "0 \<le> x0" "x0 \<le> res - 1" "0 \<le> x1" "x1 \<le> res - 1" "0 \<le> tx" "tx \<le> 1"
    using lattice_range [OF assms(1,4,5)] by (simp_all add: x_def x0_def x1_def tx_def)
  have Y: "0 \<le> y0" "y0 \<le> res - 1" "0 \<le> y1" "y1 \<le> res - 1" "0 \<le> ty" "ty \<le> 1"
    using lattice_range [OF assms(1,6,7)] by (simp_all add: y_def y0_def y1_def ty_def)
  define ch where "ch = field_channel nd ((y0 * res + x0) * 4) ((y0 * res + x1) * 4)
              ((y1 * res + x0) * 4) ((y1 * res + x1) * 4)
              ((1 - tx) * (1 - ty)) (tx * (1 - ty)) ((1 - tx) * ty) (tx * ty)"
  have C: "\<exists>r. ch c = Some r \<and> 0 \<le> r \<and> r \<le> 1" if "0 \<le> c" "c \<le> 3" for c
    unfolding ch_def using assms(2,3) X(1,2) X(3,4) Y(1,2) Y(3,4) X(5,6) Y(5,6) that
    by (rule field_channel_range)
  obtain r where r: "ch 0 = Some r" "0 \<le> r" "r \<le> 1" using C [of 0] by auto
  obtain g where g: "ch 1 = Some g" "0 \<le> g" "g \<le> 1" using C [of 1] by auto
  obtain b where b: "ch 2 = Some b" "0 \<le> b" "b \<le> 1" using C [of 2] by auto
  obtain a where a: "ch 3 = Some a" "0 \<le> a" "a \<le> 1" using C [of 3] by auto
  have "sampleSaberField nd res u v
          = Some \<lparr>f_dx = r * 2 - 1, f_dy = g * 2 - 1, f_spark = b, f_fil = a\<rparr>"
    unfolding sampleSaberField_def Let_def
      x_def [symmetric] y_def [symmetric] x0_def [symmetric] y0_def [symmetric]
      x1_def [symmetric] y1_def [symmetric] tx_def [symmetric] ty_def [symmetric]
      ch_def [symmetric]
    by (simp add: r(1) g(1) b(1) a(1))
  then show ?thesis using r g b a by simp
qed

section \<open>Properties of binary64 rounding\<close>

lemma rne_cases: "rne y = \<lfloor>y\<rfloor> \<or> rne y = \<lfloor>y\<rfloor> + 1"
  by (simp add: rne_def Let_def)

lemma rne_near: "\<bar>of_int (rne y) - y\<bar> \<le> 1 / 2"
proof -
  have "of_int \<lfloor>y\<rfloor> \<le> y" "y < of_int \<lfloor>y\<rfloor> + 1" by linarith+
  then show ?thesis unfolding rne_def Let_def by (simp add: abs_le_iff)
qed

lemma rne_of_int: "rne (of_int k) = k"
  by (simp add: rne_def Let_def)

lemma rne_le_int:
  assumes "y \<le> of_int N"
  shows "rne y \<le> N"
proof (cases "y = of_int N")
  case True
  then show ?thesis by (simp add: rne_of_int)
next
  case False
  then have "y < of_int N" using assms by simp
  then have "\<lfloor>y\<rfloor> < N" by (simp add: floor_less_iff)
  then show ?thesis using rne_cases [of y] by linarith
qed

lemma rne_ge_int:
  assumes "of_int N \<le> y"
  shows "N \<le> rne y"
proof -
  have "N \<le> \<lfloor>y\<rfloor>" using assms by (simp add: le_floor_iff)
  then show ?thesis using rne_cases [of y] by linarith
qed

lemma binade:
  assumes "x \<noteq> 0"
  defines "e \<equiv> \<lfloor>log 2 \<bar>x\<bar>\<rfloor> - 52"
  shows "2 ^ 52 \<le> \<bar>x\<bar> / 2 powr of_int e" and "\<bar>x\<bar> / 2 powr of_int e < 2 ^ 53"
proof -
  define l where "l = \<lfloor>log 2 \<bar>x\<bar>\<rfloor>"
  have pos: "0 < \<bar>x\<bar>" using assms(1) by simp
  have "of_int l \<le> log 2 \<bar>x\<bar>" "log 2 \<bar>x\<bar> < of_int l + 1" unfolding l_def by linarith+
  then have lo: "2 powr of_int l \<le> \<bar>x\<bar>" and hi: "\<bar>x\<bar> < 2 powr (of_int l + 1)"
    using pos by (simp_all add: powr_le_iff less_powr_iff)
  have e: "of_int l = of_int e + (52 :: real)" by (simp add: e_def l_def)
  have s: "(2 :: real) powr of_int l = 2 powr of_int e * 2 ^ 52"
    unfolding e by (simp add: powr_add)
  have s': "(2 :: real) powr (of_int l + 1) = 2 powr of_int e * 2 ^ 53"
    unfolding e by (simp add: powr_add)
  have p: "0 < (2 :: real) powr of_int e" by simp
  show "2 ^ 52 \<le> \<bar>x\<bar> / 2 powr of_int e"
    using lo p unfolding s by (simp add: le_divide_eq mult.commute)
  show "\<bar>x\<bar> / 2 powr of_int e < 2 ^ 53"
    using hi p unfolding s' by (simp add: divide_less_eq mult.commute)
qed

lemma b64_error: "\<bar>b64 x - x\<bar> \<le> \<bar>x\<bar> / 2 ^ 53"
proof (cases "x = 0")
  case True
  then show ?thesis by (simp add: b64_def)
next
  case False
  define e where "e = \<lfloor>log 2 \<bar>x\<bar>\<rfloor> - 52"
  define s :: real where "s = 2 powr of_int e"
  have s: "0 < s" by (simp add: s_def)
  have b: "b64 x = of_int (rne (x / s)) * s"
    using False by (simp add: b64_def Let_def e_def s_def)
  have "b64 x - x = (of_int (rne (x / s)) - x / s) * s"
    unfolding b using s by (simp add: algebra_simps)
  then have "\<bar>b64 x - x\<bar> = \<bar>of_int (rne (x / s)) - x / s\<bar> * s"
    using s by (simp add: abs_mult)
  also have "\<dots> \<le> 1 / 2 * s" using rne_near [of "x / s"] s by (intro mult_right_mono) simp_all
  also have "\<dots> \<le> \<bar>x\<bar> / 2 ^ 53"
  proof -
    have "2 ^ 52 \<le> \<bar>x\<bar> / s" using binade(1) [OF False] by (simp add: s_def e_def)
    then have "2 ^ 52 * s \<le> \<bar>x\<bar>" using s by (simp add: le_divide_eq)
    then show ?thesis by simp
  qed
  finally show ?thesis .
qed

lemma b64_nonneg: "0 \<le> x \<Longrightarrow> 0 \<le> b64 x"
proof -
  assume a: "0 \<le> x"
  have "\<bar>b64 x - x\<bar> \<le> x / 2 ^ 53" using b64_error [of x] a by simp
  then have "x - x / 2 ^ 53 \<le> b64 x" by linarith
  moreover have "x / 2 ^ 53 \<le> x" using a by (simp add: divide_le_eq)
  ultimately show ?thesis by linarith
qed

lemma b64_scale:
  assumes "x \<noteq> 0"
  shows "b64 x = of_int (rne (x / 2 powr of_int (\<lfloor>log 2 \<bar>x\<bar>\<rfloor> - 52)))
                   * 2 powr of_int (\<lfloor>log 2 \<bar>x\<bar>\<rfloor> - 52)"
  using assms by (simp add: b64_def Let_def)

lemma exponent_nonpos:
  assumes "x \<noteq> 0" "\<bar>x\<bar> < 2 ^ 53"
  shows "\<lfloor>log 2 \<bar>x\<bar>\<rfloor> - 52 \<le> 0"
proof -
  have "(2 :: real) powr 53 = 2 ^ 53" by (rule powr_numeral) simp
  then have "\<bar>x\<bar> < 2 powr 53" using assms(2) by (simp only:)
  then have "log 2 \<bar>x\<bar> < 53" using assms(1) by (subst log_less_iff) simp_all
  then have "\<lfloor>log 2 \<bar>x\<bar>\<rfloor> < 53" by (simp add: floor_less_iff)
  then show ?thesis by simp
qed

lemma powr_nonpos_int:
  assumes "e \<le> 0"
  shows "(2 :: real) powr of_int e = 1 / 2 ^ nat (- e)"
proof -
  have "of_int e = - real (nat (- e))" using assms by simp
  then have "(2 :: real) powr of_int e = 2 powr (- real (nat (- e)))" by (simp only:)
  also have "\<dots> = 1 / 2 powr real (nat (- e))" by (rule powr_minus_divide)
  also have "\<dots> = 1 / 2 ^ nat (- e)" by (simp add: powr_realpow)
  finally show ?thesis .
qed

lemma real_lt_2p53:
  fixes n :: int
  assumes "n < 2 ^ 53"
  shows "(of_int n :: real) < 2 ^ 53"
proof -
  have "(of_int n :: real) < of_int (2 ^ 53)" using assms by (simp only: of_int_less_iff)
  then show ?thesis by simp
qed

lemma b64_down:
  assumes "x \<noteq> 0" "\<bar>x\<bar> < 2 ^ 53"
  shows "\<exists>k. b64 x = of_int (rne (x * 2 ^ k)) / 2 ^ k"
proof -
  define e where "e = \<lfloor>log 2 \<bar>x\<bar>\<rfloor> - 52"
  define k where "k = nat (- e)"
  have e: "e \<le> 0" unfolding e_def using assms by (rule exponent_nonpos)
  have s: "(2 :: real) powr of_int e = 1 / 2 ^ k" unfolding k_def using e by (rule powr_nonpos_int)
  have "b64 x = of_int (rne (x / (1 / 2 ^ k))) * (1 / 2 ^ k)"
    using b64_scale [OF assms(1)] unfolding e_def [symmetric] s .
  then have "b64 x = of_int (rne (x * 2 ^ k)) / 2 ^ k" by simp
  then show ?thesis ..
qed

lemma b64_le_int:
  assumes "x \<le> of_int n" "0 \<le> n" "n < 2 ^ 53"
  shows "b64 x \<le> of_int n"
proof (cases "x \<le> 0")
  case True
  have "\<bar>b64 x - x\<bar> \<le> - x / 2 ^ 53" using b64_error [of x] True by simp
  then have "b64 x \<le> x - x / 2 ^ 53" by linarith
  moreover have "x - x / 2 ^ 53 \<le> 0" using True by (simp add: field_simps)
  ultimately show ?thesis using assms(2) by simp
next
  case False
  then have pos: "0 < x" by simp
  have "\<bar>x\<bar> < 2 ^ 53" using assms(1) pos real_lt_2p53 [OF assms(3)] by simp
  then obtain k where b: "b64 x = of_int (rne (x * 2 ^ k)) / 2 ^ k"
    using b64_down [of x] pos by auto
  have "x * 2 ^ k \<le> of_int (n * 2 ^ k)" using assms(1) by simp
  then have "rne (x * 2 ^ k) \<le> n * 2 ^ k" by (rule rne_le_int)
  then have "(of_int (rne (x * 2 ^ k)) :: real) \<le> of_int (n * 2 ^ k)" by (simp only: of_int_le_iff)
  then show ?thesis unfolding b by (simp add: divide_le_eq)
qed

lemma b64_of_int:
  assumes "\<bar>n\<bar> < 2 ^ 53"
  shows "b64 (of_int n) = of_int n"
proof (cases "n = 0")
  case True
  then show ?thesis by (simp add: b64_def)
next
  case False
  define x :: real where "x = of_int n"
  have nz: "x \<noteq> 0" using False by (simp add: x_def)
  have "\<bar>x\<bar> = of_int \<bar>n\<bar>" by (simp add: x_def)
  then have lt: "\<bar>x\<bar> < 2 ^ 53" using real_lt_2p53 [OF assms] by simp
  obtain k where b: "b64 x = of_int (rne (x * 2 ^ k)) / 2 ^ k"
    using b64_down [OF nz lt] by auto
  have "x * 2 ^ k = of_int (n * 2 ^ k)" by (simp add: x_def)
  then have "rne (x * 2 ^ k) = n * 2 ^ k" by (simp only: rne_of_int)
  then have "b64 x = x" unfolding b by (simp add: x_def)
  then show ?thesis by (simp add: x_def)
qed

lemma floor_log2_eq:
  assumes "0 < a" "2 powr of_int l \<le> a" "a < 2 powr (of_int l + 1)"
  shows "\<lfloor>log 2 a\<rfloor> = l"
proof -
  have "of_int l \<le> log 2 a" using assms(1,2) by (subst le_log_iff) simp_all
  moreover have "log 2 a < of_int l + 1" using assms(1,3) by (subst log_less_iff) simp_all
  ultimately show ?thesis by (simp add: floor_eq_iff)
qed

lemma powr_52_minus:
  "(2 :: real) powr of_int (52 - int k) = 2 ^ 52 / 2 ^ k"
proof -
  have a: "(2 :: real) powr real k = 2 ^ k" by (simp add: powr_realpow)
  have b: "(2 :: real) powr 52 = 2 ^ 52" by (rule powr_numeral) simp
  have "of_int (52 - int k) = (52 :: real) - real k" by simp
  then have "(2 :: real) powr of_int (52 - int k) = 2 powr (52 - real k)" by (simp only:)
  also have "\<dots> = 2 powr 52 / 2 powr real k" by (rule powr_diff)
  finally show ?thesis unfolding a b .
qed

lemma powr_53_minus:
  "(2 :: real) powr (of_int (52 - int k) + 1) = 2 ^ 53 / 2 ^ k"
proof -
  have a: "(2 :: real) powr real k = 2 ^ k" by (simp add: powr_realpow)
  have c: "(2 :: real) powr 53 = 2 ^ 53" by (rule powr_numeral) simp
  have "of_int (52 - int k) + 1 = (53 :: real) - real k" by simp
  then have "(2 :: real) powr (of_int (52 - int k) + 1) = 2 powr (53 - real k)" by (simp only:)
  also have "\<dots> = 2 powr 53 / 2 powr real k" by (rule powr_diff)
  finally show ?thesis unfolding a c .
qed

lemma b64_eval_down:
  assumes "2 ^ 52 \<le> \<bar>x\<bar> * 2 ^ k" "\<bar>x\<bar> * 2 ^ k < 2 ^ 53"
  shows "b64 x = of_int (rne (x * 2 ^ k)) / 2 ^ k"
proof -
  have nz: "x \<noteq> 0" using assms(1) by auto
  have "\<lfloor>log 2 \<bar>x\<bar>\<rfloor> = 52 - int k"
  proof (rule floor_log2_eq)
    show "0 < \<bar>x\<bar>" using nz by simp
    have "2 ^ 52 / 2 ^ k \<le> \<bar>x\<bar>" using assms(1) by (simp add: divide_le_eq)
    then show "2 powr of_int (52 - int k) \<le> \<bar>x\<bar>"
      by (simp only: powr_52_minus)
    have "\<bar>x\<bar> < 2 ^ 53 / 2 ^ k" using assms(2) by (simp add: less_divide_eq)
    then show "\<bar>x\<bar> < 2 powr (of_int (52 - int k) + 1)"
      by (simp only: powr_53_minus)
  qed
  then have e: "\<lfloor>log 2 \<bar>x\<bar>\<rfloor> - 52 = - int k" by simp
  have s: "(2 :: real) powr of_int (- int k) = 1 / 2 ^ k"
    using powr_nonpos_int [of "- int k"] by simp
  have "b64 x = of_int (rne (x / (1 / 2 ^ k))) * (1 / 2 ^ k)"
    using b64_scale [OF nz] unfolding e s .
  then show ?thesis by simp
qed

lemma b64_zero: "b64 0 = 0"
  by (simp add: b64_def)

lemma ulp1_ge: "1 \<le> ulp1" "0 \<le> ulp1" "0 < ulp1"
  by (simp_all add: ulp1_def)

lemma b64_up:
  assumes "0 \<le> x"
  shows "b64 x \<le> x * ulp1"
proof -
  have "\<bar>b64 x - x\<bar> \<le> x / 2 ^ 53" using b64_error [of x] assms by simp
  then have "b64 x \<le> x + x / 2 ^ 53" by linarith
  also have "\<dots> = x * ulp1" by (simp add: ulp1_def algebra_simps)
  finally show ?thesis .
qed

lemma b64_up_pow:
  assumes "0 \<le> x" "x \<le> c * ulp1 ^ k"
  shows "b64 x \<le> c * ulp1 ^ Suc k"
proof -
  have "b64 x \<le> x * ulp1" using assms(1) by (rule b64_up)
  also have "\<dots> \<le> (c * ulp1 ^ k) * ulp1"
    using assms(2) ulp1_ge(2) by (rule mult_right_mono)
  finally show ?thesis by (simp add: mult_ac)
qed

lemma pow_weaken:
  assumes "0 \<le> c" "j \<le> k"
  shows "c * ulp1 ^ j \<le> c * ulp1 ^ k"
  using assms ulp1_ge(1) by (intro mult_left_mono power_increasing) simp_all

lemma b64_ge_int:
  assumes "of_int n \<le> x" "n \<le> 0" "- (2 ^ 53) < n"
  shows "of_int n \<le> b64 x"
proof (cases "0 \<le> x")
  case True
  then have "0 \<le> b64 x" by (rule b64_nonneg)
  moreover have "(of_int n :: real) \<le> 0" using assms(2) by simp
  ultimately show ?thesis by linarith
next
  case False
  then have neg: "x < 0" by simp
  have "(of_int (- n) :: real) < 2 ^ 53" using assms(3) by (intro real_lt_2p53) simp
  then have "\<bar>x\<bar> < 2 ^ 53" using assms(1) neg by simp
  then obtain k where b: "b64 x = of_int (rne (x * 2 ^ k)) / 2 ^ k"
    using b64_down [of x] neg by auto
  have "of_int (n * 2 ^ k) \<le> x * 2 ^ k" using assms(1) by simp
  then have "n * 2 ^ k \<le> rne (x * 2 ^ k)" by (rule rne_ge_int)
  then have "(of_int (n * 2 ^ k) :: real) \<le> of_int (rne (x * 2 ^ k))" by (simp only: of_int_le_iff)
  then show ?thesis unfolding b by (simp add: le_divide_eq)
qed

lemma b64_unit:
  assumes "0 \<le> x" "x \<le> 1"
  shows "0 \<le> b64 x" "b64 x \<le> 1"
proof -
  show "0 \<le> b64 x" using assms(1) by (rule b64_nonneg)
  have "b64 x \<le> of_int 1" using assms(2) by (intro b64_le_int) simp_all
  then show "b64 x \<le> 1" by simp
qed

lemma b64_half: "b64 (x / 2) = b64 x / 2"
proof (cases "x = 0")
  case True
  then show ?thesis by (simp add: b64_def)
next
  case False
  define l where "l = log 2 \<bar>x\<bar>"
  have lg: "log 2 \<bar>x / 2\<bar> = l - 1"
    using False by (simp add: l_def log_divide)
  have fl: "\<lfloor>l - 1\<rfloor> = \<lfloor>l\<rfloor> - 1" by linarith
  define e where "e = \<lfloor>l\<rfloor> - 52"
  have e': "\<lfloor>log 2 \<bar>x / 2\<bar>\<rfloor> - 52 = e - 1" unfolding lg fl e_def by simp
  have p: "(2 :: real) powr of_int (e - 1) = 2 powr of_int e / 2"
    by (simp add: powr_diff)
  have "b64 (x / 2) = of_int (rne (x / 2 / 2 powr of_int (e - 1))) * 2 powr of_int (e - 1)"
    using False unfolding b64_def Let_def e' by simp
  also have "\<dots> = of_int (rne (x / 2 powr of_int e)) * 2 powr of_int e / 2"
    unfolding p by simp
  also have "of_int (rne (x / 2 powr of_int e)) * 2 powr of_int e = b64 x"
    using False unfolding b64_def Let_def e_def l_def by simp
  finally show ?thesis .
qed

lemma b64_ge_int_pos:
  assumes "of_int n \<le> x" "0 \<le> n" "x < 2 ^ 53"
  shows "of_int n \<le> b64 x"
proof (cases "x = 0")
  case True
  then show ?thesis using assms by (simp add: b64_zero)
next
  case False
  have "0 \<le> x" using assms(1,2) by (meson of_int_0_le_iff order_trans)
  then have "\<bar>x\<bar> < 2 ^ 53" using assms(3) by simp
  then obtain k where b: "b64 x = of_int (rne (x * 2 ^ k)) / 2 ^ k"
    using b64_down [of x] False by auto
  have "of_int (n * 2 ^ k) \<le> x * 2 ^ k" using assms(1) by simp
  then have "n * 2 ^ k \<le> rne (x * 2 ^ k)" by (rule rne_ge_int)
  then have "(of_int (n * 2 ^ k) :: real) \<le> of_int (rne (x * 2 ^ k))" by (simp only: of_int_le_iff)
  then show ?thesis unfolding b by (simp add: le_divide_eq)
qed

lemma b64_byte: "a \<le> 255 \<Longrightarrow> b64 (real a) = real a"
  using b64_of_int [of "int a"] by simp

lemma b64_one: "b64 1 = 1"
  using b64_of_int [of 1] by simp

lemma b64_two: "b64 2 = 2"
  using b64_of_int [of 2] by simp

lemma b64_minus_one: "b64 (- 1) = - 1"
  using b64_of_int [of "- 1"] by simp

lemma b64_within:
  assumes "\<bar>x\<bar> \<le> c"
  shows "\<bar>b64 x - x\<bar> \<le> c / 2 ^ 53"
proof -
  have "\<bar>b64 x - x\<bar> \<le> \<bar>x\<bar> / 2 ^ 53" by (rule b64_error)
  also have "\<dots> \<le> c / 2 ^ 53" using assms by (simp add: divide_right_mono)
  finally show ?thesis .
qed

lemma b64_le_int_gen:
  assumes "x \<le> of_int n" "\<bar>x\<bar> < 2 ^ 53"
  shows "b64 x \<le> of_int n"
proof (cases "x = 0")
  case True
  then show ?thesis using assms by (simp add: b64_zero)
next
  case False
  then obtain k where b: "b64 x = of_int (rne (x * 2 ^ k)) / 2 ^ k"
    using b64_down [of x] assms(2) by auto
  have "x * 2 ^ k \<le> of_int (n * 2 ^ k)" using assms(1) by simp
  then have "rne (x * 2 ^ k) \<le> n * 2 ^ k" by (rule rne_le_int)
  then have "(of_int (rne (x * 2 ^ k)) :: real) \<le> of_int (n * 2 ^ k)" by (simp only: of_int_le_iff)
  then show ?thesis unfolding b by (simp add: divide_le_eq)
qed

lemma b64_ge_int_gen:
  assumes "of_int n \<le> x" "\<bar>x\<bar> < 2 ^ 53"
  shows "of_int n \<le> b64 x"
proof (cases "x = 0")
  case True
  then show ?thesis using assms by (simp add: b64_zero)
next
  case False
  then obtain k where b: "b64 x = of_int (rne (x * 2 ^ k)) / 2 ^ k"
    using b64_down [of x] assms(2) by auto
  have "of_int (n * 2 ^ k) \<le> x * 2 ^ k" using assms(1) by simp
  then have "n * 2 ^ k \<le> rne (x * 2 ^ k)" by (rule rne_ge_int)
  then have "(of_int (n * 2 ^ k) :: real) \<le> of_int (rne (x * 2 ^ k))" by (simp only: of_int_le_iff)
  then show ?thesis unfolding b by (simp add: le_divide_eq)
qed

lemma b64_between:
  fixes m n :: int
  assumes "of_int m \<le> x" "x \<le> of_int n" "\<bar>x\<bar> \<le> 1000"
  shows "of_int m \<le> b64 x \<and> b64 x \<le> of_int n"
proof -
  have "\<bar>x\<bar> < 2 ^ 53" using assms(3) by simp
  then show ?thesis using assms(1,2) by (simp add: b64_le_int_gen b64_ge_int_gen)
qed

section \<open>Decoding the turbulence field in binary64\<close>

text \<open>The weighted sum of one channel, as binary64 evaluates it.\<close>

lemma channel_sum_bound:
  fixes tx ty :: real and A B C D :: nat
  assumes t: "0 \<le> tx" "tx \<le> 1" "0 \<le> ty" "ty \<le> 1"
    and bytes: "A \<le> 255" "B \<le> 255" "C \<le> 255" "D \<le> 255"
  defines "a \<equiv> b64 (1 - tx)" and "b \<equiv> b64 (1 - ty)"
  defines "w00 \<equiv> b64 (a * b)" and "w10 \<equiv> b64 (tx * b)"
    and "w01 \<equiv> b64 (a * ty)" and "w11 \<equiv> b64 (tx * ty)"
  defines "r \<equiv> b64 (b64 (b64 (b64 (b64 (real A * w00) + b64 (real B * w10))
                               + b64 (real C * w01))
                          + b64 (real D * w11))
                     / 255)"
  shows "0 \<le> r \<and> r \<le> ulp1 ^ 8"
proof -
  define W00 where "W00 = (1 - tx) * (1 - ty)"
  define W10 where "W10 = tx * (1 - ty)"
  define W01 where "W01 = (1 - tx) * ty"
  define W11 where "W11 = tx * ty"
  have W: "0 \<le> W00" "0 \<le> W10" "0 \<le> W01" "0 \<le> W11"
    using t by (simp_all add: W00_def W10_def W01_def W11_def)
  have Wsum: "W00 + W10 + W01 + W11 = 1"
    by (simp add: W00_def W10_def W01_def W11_def algebra_simps)
  have a: "0 \<le> a" "a \<le> (1 - tx) * ulp1 ^ 1"
    unfolding a_def using t by (simp_all add: b64_nonneg b64_up)
  have b: "0 \<le> b" "b \<le> (1 - ty) * ulp1 ^ 1"
    unfolding b_def using t by (simp_all add: b64_nonneg b64_up)
  \<comment> \<open>the four weights\<close>
  have "a * b \<le> ((1 - tx) * ulp1 ^ 1) * ((1 - ty) * ulp1 ^ 1)"
    using a b t by (intro mult_mono) simp_all
  then have "a * b \<le> W00 * ulp1 ^ 2" by (simp add: W00_def power2_eq_square algebra_simps)
  then have w00: "0 \<le> w00" "w00 \<le> W00 * ulp1 ^ 3"
    unfolding w00_def using a(1) b(1) b64_up_pow [of "a * b" W00 2]
    by (simp_all add: b64_nonneg numeral_3_eq_3 numeral_2_eq_2)
  have "tx * b \<le> tx * ((1 - ty) * ulp1 ^ 1)" using b t by (intro mult_left_mono) simp_all
  then have "tx * b \<le> W10 * ulp1 ^ 1" by (simp add: W10_def algebra_simps)
  then have "tx * b \<le> W10 * ulp1 ^ 2"
    using pow_weaken [of W10 1 2] W by linarith
  then have w10: "0 \<le> w10" "w10 \<le> W10 * ulp1 ^ 3"
    unfolding w10_def using t(1) b(1) b64_up_pow [of "tx * b" W10 2]
    by (simp_all add: b64_nonneg numeral_3_eq_3 numeral_2_eq_2)
  have "a * ty \<le> ((1 - tx) * ulp1 ^ 1) * ty" using a t by (intro mult_right_mono) simp_all
  then have "a * ty \<le> W01 * ulp1 ^ 1" by (simp add: W01_def algebra_simps)
  then have "a * ty \<le> W01 * ulp1 ^ 2"
    using pow_weaken [of W01 1 2] W by linarith
  then have w01: "0 \<le> w01" "w01 \<le> W01 * ulp1 ^ 3"
    unfolding w01_def using t(3) a(1) b64_up_pow [of "a * ty" W01 2]
    by (simp_all add: b64_nonneg numeral_3_eq_3 numeral_2_eq_2)
  have "tx * ty \<le> W11 * ulp1 ^ 2"
    using pow_weaken [of W11 0 2] W by (simp add: W11_def)
  then have w11: "0 \<le> w11" "w11 \<le> W11 * ulp1 ^ 3"
    unfolding w11_def using t(1,3) b64_up_pow [of "tx * ty" W11 2]
    by (simp_all add: b64_nonneg numeral_3_eq_3 numeral_2_eq_2)
  \<comment> \<open>the four products with the bytes\<close>
  have prod: "0 \<le> b64 (real N * w) \<and> b64 (real N * w) \<le> (255 * Wx) * ulp1 ^ 4"
    if "N \<le> 255" "0 \<le> w" "w \<le> Wx * ulp1 ^ 3" "0 \<le> Wx" for N :: nat and w Wx :: real
  proof -
    have "real N \<le> 255" using that(1) by simp
    then have "real N * w \<le> 255 * (Wx * ulp1 ^ 3)"
      using that(2,3) by (intro mult_mono) simp_all
    then have "real N * w \<le> (255 * Wx) * ulp1 ^ 3" by (simp add: mult.assoc)
    then have "b64 (real N * w) \<le> (255 * Wx) * ulp1 ^ Suc 3"
      using that(2) by (intro b64_up_pow) simp_all
    then show ?thesis using that(2) by (simp add: b64_nonneg)
  qed
  define p00 where "p00 = b64 (real A * w00)"
  define p10 where "p10 = b64 (real B * w10)"
  define p01 where "p01 = b64 (real C * w01)"
  define p11 where "p11 = b64 (real D * w11)"
  have p00: "0 \<le> p00" "p00 \<le> (255 * W00) * ulp1 ^ 4"
    unfolding p00_def using prod [OF bytes(1) w00 W(1)] by simp_all
  have p10: "0 \<le> p10" "p10 \<le> (255 * W10) * ulp1 ^ 4"
    unfolding p10_def using prod [OF bytes(2) w10 W(2)] by simp_all
  have p01: "0 \<le> p01" "p01 \<le> (255 * W01) * ulp1 ^ 4"
    unfolding p01_def using prod [OF bytes(3) w01 W(3)] by simp_all
  have p11: "0 \<le> p11" "p11 \<le> (255 * W11) * ulp1 ^ 4"
    unfolding p11_def using prod [OF bytes(4) w11 W(4)] by simp_all
  \<comment> \<open>the three sums\<close>
  define s1 where "s1 = b64 (p00 + p10)"
  define s2 where "s2 = b64 (s1 + p01)"
  define s3 where "s3 = b64 (s2 + p11)"
  have "p00 + p10 \<le> (255 * (W00 + W10)) * ulp1 ^ 4"
    using p00(2) p10(2) by (simp add: algebra_simps)
  then have s1: "0 \<le> s1" "s1 \<le> (255 * (W00 + W10)) * ulp1 ^ 5"
    unfolding s1_def using p00(1) p10(1) b64_up_pow [of "p00 + p10" "255 * (W00 + W10)" 4]
    by (simp_all add: b64_nonneg)
  have "(255 * W01) * ulp1 ^ 4 \<le> (255 * W01) * ulp1 ^ 5"
    using W by (intro pow_weaken) simp_all
  then have "s1 + p01 \<le> (255 * (W00 + W10 + W01)) * ulp1 ^ 5"
    using s1(2) p01(2) by (simp add: algebra_simps)
  then have s2: "0 \<le> s2" "s2 \<le> (255 * (W00 + W10 + W01)) * ulp1 ^ 6"
    unfolding s2_def using s1(1) p01(1)
      b64_up_pow [of "s1 + p01" "255 * (W00 + W10 + W01)" 5]
    by (simp_all add: b64_nonneg)
  have "(255 * W11) * ulp1 ^ 4 \<le> (255 * W11) * ulp1 ^ 6"
    using W by (intro pow_weaken) simp_all
  then have "s2 + p11 \<le> (255 * (W00 + W10 + W01 + W11)) * ulp1 ^ 6"
    using s2(2) p11(2) by (simp add: algebra_simps)
  then have "s2 + p11 \<le> 255 * ulp1 ^ 6" unfolding Wsum by simp
  then have s3: "0 \<le> s3" "s3 \<le> 255 * ulp1 ^ 7"
    unfolding s3_def using s2(1) p11(1) b64_up_pow [of "s2 + p11" 255 6]
    by (simp_all add: b64_nonneg)
  have "s3 / 255 \<le> 1 * ulp1 ^ 7" using s3(2) by simp
  then have "b64 (s3 / 255) \<le> 1 * ulp1 ^ Suc 7"
    using s3(1) by (intro b64_up_pow) simp_all
  moreover have "0 \<le> b64 (s3 / 255)" using s3(1) by (simp add: b64_nonneg)
  moreover have "r = b64 (s3 / 255)"
    by (simp add: r_def s3_def s2_def s1_def p00_def p10_def p01_def p11_def)
  ultimately show ?thesis by simp
qed

lemma ulp1_pow8: "ulp1 ^ 8 \<le> 1 + 1 / 2 ^ 48"
  by (simp add: ulp1_def power_divide)

lemma ulp1_pow10: "(2 * ulp1 ^ 9 - 1) * ulp1 \<le> 1 + 1 / 2 ^ 48"
  by (simp add: ulp1_def power_divide)

lemma decode_disp_bound:
  assumes "0 \<le> r" "r \<le> ulp1 ^ 8"
  shows "- 1 \<le> b64 (b64 (r * 2) - 1) \<and> b64 (b64 (r * 2) - 1) \<le> 1 + 1 / 2 ^ 48"
proof -
  define z where "z = b64 (r * 2) - 1"
  have "r * 2 \<le> 2 * ulp1 ^ 8" using assms(2) by simp
  then have up: "b64 (r * 2) \<le> 2 * ulp1 ^ Suc 8"
    using assms(1) by (intro b64_up_pow) simp_all
  have lo: "0 \<le> b64 (r * 2)" using assms(1) by (simp add: b64_nonneg)
  have z: "- 1 \<le> z" "z \<le> 2 * ulp1 ^ 9 - 1" using up lo by (simp_all add: z_def)
  have "of_int (- 1) \<le> b64 z" using z(1) by (intro b64_ge_int) simp_all
  then have l: "- 1 \<le> b64 z" by simp
  have u: "b64 z \<le> 1 + 1 / 2 ^ 48"
  proof (cases "z \<le> 0")
    case True
    then have "b64 z \<le> of_int 0" by (intro b64_le_int) simp_all
    then show ?thesis by simp
  next
    case False
    then have "b64 z \<le> z * ulp1" by (intro b64_up) simp
    also have "\<dots> \<le> (2 * ulp1 ^ 9 - 1) * ulp1"
      using z(2) ulp1_ge(2) by (rule mult_right_mono)
    also note ulp1_pow10
    finally show ?thesis .
  qed
  show ?thesis using l u unfolding z_def by simp
qed

lemma lattice_range_b64:
  fixes res :: int and u :: real
  assumes "1 \<le> res" "res \<le> 2 ^ 53" "0 \<le> u" "u \<le> 1"
  defines "x \<equiv> b64 (u * (of_int res - 1))"
  shows "0 \<le> \<lfloor>x\<rfloor> \<and> \<lfloor>x\<rfloor> \<le> res - 1
       \<and> 0 \<le> min (res - 1) (\<lfloor>x\<rfloor> + 1) \<and> min (res - 1) (\<lfloor>x\<rfloor> + 1) \<le> res - 1
       \<and> 0 \<le> b64 (x - of_int \<lfloor>x\<rfloor>) \<and> b64 (x - of_int \<lfloor>x\<rfloor>) \<le> 1"
proof -
  have r: "0 \<le> (of_int res - 1 :: real)" using assms(1) by simp
  have y0: "0 \<le> u * (of_int res - 1)" using assms(3) r by simp
  have "u * (of_int res - 1) \<le> 1 * (of_int res - 1)" using assms(4) r by (rule mult_right_mono)
  then have y1: "u * (of_int res - 1) \<le> of_int (res - 1)" by simp
  have x0: "0 \<le> x" unfolding x_def using y0 by (rule b64_nonneg)
  have x1: "x \<le> of_int (res - 1)"
    unfolding x_def using y1 assms(1,2) by (intro b64_le_int) simp_all
  have f0: "0 \<le> \<lfloor>x\<rfloor>" using x0 by simp
  have f1: "\<lfloor>x\<rfloor> \<le> res - 1" using x1 by (metis floor_mono floor_of_int)
  have t: "0 \<le> x - of_int \<lfloor>x\<rfloor>" "x - of_int \<lfloor>x\<rfloor> \<le> 1" by linarith+
  have "0 \<le> b64 (x - of_int \<lfloor>x\<rfloor>)" "b64 (x - of_int \<lfloor>x\<rfloor>) \<le> 1"
    using t by (rule b64_unit)+
  with f0 f1 assms(1) show ?thesis by simp
qed

lemma field_channel_rnd_range:
  fixes tx ty :: real
  assumes len: "int (length nd) = res * res * 4" and bytes: "\<forall>b\<in>set nd. b \<le> 255"
    and x0: "0 \<le> x0" "x0 \<le> res - 1" and x1: "0 \<le> x1" "x1 \<le> res - 1"
    and y0: "0 \<le> y0" "y0 \<le> res - 1" and y1: "0 \<le> y1" "y1 \<le> res - 1"
    and t: "0 \<le> tx" "tx \<le> 1" "0 \<le> ty" "ty \<le> 1"
    and c: "0 \<le> c" "c \<le> 3"
  shows "\<exists>r. field_channel_rnd b64 nd ((y0 * res + x0) * 4) ((y0 * res + x1) * 4)
              ((y1 * res + x0) * 4) ((y1 * res + x1) * 4)
              (b64 (b64 (1 - tx) * b64 (1 - ty))) (b64 (tx * b64 (1 - ty)))
              (b64 (b64 (1 - tx) * ty)) (b64 (tx * ty)) c = Some r
            \<and> 0 \<le> r \<and> r \<le> ulp1 ^ 8"
proof -
  have rd: "\<exists>a. read_u8 nd ((yy * res + xx) * 4 + c) = Some a \<and> a \<le> 255"
    if "0 \<le> xx" "xx \<le> res - 1" "0 \<le> yy" "yy \<le> res - 1" for xx yy
  proof -
    have i: "0 \<le> (yy * res + xx) * 4 + c \<and> (yy * res + xx) * 4 + c < res * res * 4"
      using that c by (intro pixel_index_range) auto
    then have "read_u8 nd ((yy * res + xx) * 4 + c) = Some (nd ! nat ((yy * res + xx) * 4 + c))"
      using len by (simp add: read_u8_in_range)
    moreover have "nat ((yy * res + xx) * 4 + c) < length nd" using i len by linarith
    then have "nd ! nat ((yy * res + xx) * 4 + c) \<le> 255" using bytes by simp
    ultimately show ?thesis by simp
  qed
  obtain a where a: "read_u8 nd ((y0 * res + x0) * 4 + c) = Some a" "a \<le> 255"
    using rd [OF x0 y0] by blast
  obtain b where b: "read_u8 nd ((y0 * res + x1) * 4 + c) = Some b" "b \<le> 255"
    using rd [OF x1 y0] by blast
  obtain c' where c': "read_u8 nd ((y1 * res + x0) * 4 + c) = Some c'" "c' \<le> 255"
    using rd [OF x0 y1] by blast
  obtain d where d: "read_u8 nd ((y1 * res + x1) * 4 + c) = Some d" "d \<le> 255"
    using rd [OF x1 y1] by blast
  define V where "V = b64 (b64 (b64 (b64 (b64 (real a * b64 (b64 (1 - tx) * b64 (1 - ty)))
                                        + b64 (real b * b64 (tx * b64 (1 - ty))))
                               + b64 (real c' * b64 (b64 (1 - tx) * ty)))
                          + b64 (real d * b64 (tx * ty)))
                     / 255)"
  have bound: "0 \<le> V \<and> V \<le> ulp1 ^ 8"
    unfolding V_def using t a(2) b(2) c'(2) d(2) by (rule channel_sum_bound)
  have eq: "field_channel_rnd b64 nd ((y0 * res + x0) * 4) ((y0 * res + x1) * 4)
              ((y1 * res + x0) * 4) ((y1 * res + x1) * 4)
              (b64 (b64 (1 - tx) * b64 (1 - ty))) (b64 (tx * b64 (1 - ty)))
              (b64 (b64 (1 - tx) * ty)) (b64 (tx * ty)) c = Some V"
    unfolding field_channel_rnd_def a(1) b(1) c'(1) d(1) V_def by simp
  show ?thesis using eq bound by blast
qed

lemma sampleSaberField_b64_range:
  assumes "1 \<le> res" "res \<le> 2 ^ 53" "int (length nd) = res * res * 4" "\<forall>b\<in>set nd. b \<le> 255"
    and "0 \<le> u" "u \<le> 1" "0 \<le> v" "v \<le> 1"
  shows "\<exists>f. sampleSaberField_rnd b64 nd res u v = Some f
           \<and> - 1 \<le> f_dx f \<and> f_dx f \<le> 1 + 1 / 2 ^ 48
           \<and> - 1 \<le> f_dy f \<and> f_dy f \<le> 1 + 1 / 2 ^ 48
           \<and> 0 \<le> f_spark f \<and> f_spark f \<le> 1 + 1 / 2 ^ 48
           \<and> 0 \<le> f_fil f \<and> f_fil f \<le> 1 + 1 / 2 ^ 48"
proof -
  define x where "x = b64 (u * (of_int res - 1))"
  define y where "y = b64 (v * (of_int res - 1))"
  define x0 where "x0 = \<lfloor>x\<rfloor>"
  define y0 where "y0 = \<lfloor>y\<rfloor>"
  define x1 where "x1 = min (res - 1) (x0 + 1)"
  define y1 where "y1 = min (res - 1) (y0 + 1)"
  define tx where "tx = b64 (x - of_int x0)"
  define ty where "ty = b64 (y - of_int y0)"
  have X: "0 \<le> x0" "x0 \<le> res - 1" "0 \<le> x1" "x1 \<le> res - 1" "0 \<le> tx" "tx \<le> 1"
    using lattice_range_b64 [OF assms(1,2,5,6)] by (simp_all add: x_def x0_def x1_def tx_def)
  have Y: "0 \<le> y0" "y0 \<le> res - 1" "0 \<le> y1" "y1 \<le> res - 1" "0 \<le> ty" "ty \<le> 1"
    using lattice_range_b64 [OF assms(1,2,7,8)] by (simp_all add: y_def y0_def y1_def ty_def)
  define ch where "ch = field_channel_rnd b64 nd ((y0 * res + x0) * 4) ((y0 * res + x1) * 4)
              ((y1 * res + x0) * 4) ((y1 * res + x1) * 4)
              (b64 (b64 (1 - tx) * b64 (1 - ty))) (b64 (tx * b64 (1 - ty)))
              (b64 (b64 (1 - tx) * ty)) (b64 (tx * ty))"
  have C: "\<exists>r. ch c = Some r \<and> 0 \<le> r \<and> r \<le> ulp1 ^ 8" if "0 \<le> c" "c \<le> 3" for c
    unfolding ch_def using assms(3,4) X(1,2) X(3,4) Y(1,2) Y(3,4) X(5,6) Y(5,6) that
    by (rule field_channel_rnd_range)
  obtain r where r: "ch 0 = Some r" "0 \<le> r" "r \<le> ulp1 ^ 8" using C [of 0] by auto
  obtain g where g: "ch 1 = Some g" "0 \<le> g" "g \<le> ulp1 ^ 8" using C [of 1] by auto
  obtain b where b: "ch 2 = Some b" "0 \<le> b" "b \<le> ulp1 ^ 8" using C [of 2] by auto
  obtain a where a: "ch 3 = Some a" "0 \<le> a" "a \<le> ulp1 ^ 8" using C [of 3] by auto
  have eq: "sampleSaberField_rnd b64 nd res u v
          = Some \<lparr>f_dx = b64 (b64 (r * 2) - 1), f_dy = b64 (b64 (g * 2) - 1),
                  f_spark = b, f_fil = a\<rparr>"
    unfolding sampleSaberField_rnd_def Let_def
      x_def [symmetric] y_def [symmetric] x0_def [symmetric] y0_def [symmetric]
      x1_def [symmetric] y1_def [symmetric] tx_def [symmetric] ty_def [symmetric]
      ch_def [symmetric]
    by (simp add: r(1) g(1) b(1) a(1))
  have dr: "- 1 \<le> b64 (b64 (r * 2) - 1) \<and> b64 (b64 (r * 2) - 1) \<le> 1 + 1 / 2 ^ 48"
    using r(2,3) by (rule decode_disp_bound)
  have dg: "- 1 \<le> b64 (b64 (g * 2) - 1) \<and> b64 (b64 (g * 2) - 1) \<le> 1 + 1 / 2 ^ 48"
    using g(2,3) by (rule decode_disp_bound)
  have bb: "b \<le> 1 + 1 / 2 ^ 48" using b(3) ulp1_pow8 by linarith
  have aa: "a \<le> 1 + 1 / 2 ^ 48" using a(3) ulp1_pow8 by linarith
  show ?thesis unfolding eq using dr dg b(2) bb a(2) aa by simp
qed

lemma decode_byte_255: "b64 (b64 (b64 (real (255 :: nat) / 255) * 2) - 1) = 1"
  by (simp add: b64_one b64_two)

lemma decode_byte_0: "b64 (b64 (b64 (real (0 :: nat) / 255) * 2) - 1) = - 1"
  by (simp add: b64_zero b64_minus_one)

lemma decode_byte_near:
  assumes "k \<le> 255"
  shows "\<bar>b64 (b64 (b64 (real k / 255) * 2) - 1) - (real k / 255 * 2 - 1)\<bar> \<le> 1 / 2 ^ 50"
proof -
  define q where "q = real k / 255"
  define r where "r = b64 q"
  define s where "s = b64 (r * 2)"
  have q: "0 \<le> q" "q \<le> 1" using assms by (simp_all add: q_def)
  have "of_int 0 \<le> r \<and> r \<le> of_int 1"
    unfolding r_def using q by (intro b64_between) simp_all
  then have r: "0 \<le> r" "r \<le> 1" by simp_all
  have re: "\<bar>r - q\<bar> \<le> 1 / 2 ^ 53"
    unfolding r_def using q by (intro b64_within) simp
  have "of_int 0 \<le> s \<and> s \<le> of_int 2"
    unfolding s_def using r by (intro b64_between) simp_all
  then have s: "0 \<le> s" "s \<le> 2" by simp_all
  have se: "\<bar>s - r * 2\<bar> \<le> 2 / 2 ^ 53"
    unfolding s_def using r by (intro b64_within) simp
  have ze: "\<bar>b64 (s - 1) - (s - 1)\<bar> \<le> 1 / 2 ^ 53"
    using s by (intro b64_within) (simp add: abs_le_iff)
  have "\<bar>b64 (s - 1) - (q * 2 - 1)\<bar> \<le> 1 / 2 ^ 50"
    using re se ze unfolding abs_le_iff by (simp add: field_simps)
  then show ?thesis unfolding s_def r_def q_def .
qed

lemma sampleSaberField_b64_one_pixel:
  assumes "a \<le> 255" "b \<le> 255" "c \<le> 255" "d \<le> 255"
  shows "sampleSaberField_rnd b64 [a, b, c, d] 1 u v
     = Some \<lparr>f_dx = b64 (b64 (b64 (real a / 255) * 2) - 1),
             f_dy = b64 (b64 (b64 (real b / 255) * 2) - 1),
             f_spark = b64 (real c / 255), f_fil = b64 (real d / 255)\<rparr>"
  using assms
  by (simp add: sampleSaberField_rnd_def field_channel_rnd_def read_u8_def Let_def
        b64_zero b64_one b64_byte)

lemma sampleSaberField_rnd_id:
  "sampleSaberField_rnd (\<lambda>x. x) nd res u v = sampleSaberField nd res u v"
  by (simp add: sampleSaberField_rnd_def sampleSaberField_def field_channel_rnd_def
        field_channel_def fun_eq_iff Let_def cong: option.case_cong)

lemma b64_step0: "b64 (1 / 519) = (8885714871729071 / 4611686018427387904)"
proof -
  have "b64 (1 / 519) = of_int (rne ((1 / 519) * 2 ^ 62)) / 2 ^ 62"
    by (rule b64_eval_down) simp_all
  also have "rne ((1 / 519) * 2 ^ 62) = 8885714871729071"
    by (simp add: rne_def Let_def)
  finally show ?thesis by simp
qed

lemma b64_step1: "b64 (8885714871729071 / 4611686018427387904) = (8885714871729071 / 4611686018427387904)"
proof -
  have "b64 (8885714871729071 / 4611686018427387904) = of_int (rne ((8885714871729071 / 4611686018427387904) * 2 ^ 62)) / 2 ^ 62"
    by (rule b64_eval_down) simp_all
  also have "rne ((8885714871729071 / 4611686018427387904) * 2 ^ 62) = 8885714871729071"
    by (simp add: rne_def Let_def)
  finally show ?thesis by simp
qed

lemma b64_step2: "b64 (3367685936385317909 / 4611686018427387904) = (3288755797251287 / 4503599627370496)"
proof -
  have "b64 (3367685936385317909 / 4611686018427387904) = of_int (rne ((3367685936385317909 / 4611686018427387904) * 2 ^ 53)) / 2 ^ 53"
    by (rule b64_eval_down) simp_all
  also have "rne ((3367685936385317909 / 4611686018427387904) * 2 ^ 53) = 6577511594502574"
    by (simp add: rne_def Let_def)
  finally show ?thesis by simp
qed

lemma b64_step3: "b64 (3288755797251287 / 4503599627370496) = (3288755797251287 / 4503599627370496)"
proof -
  have "b64 (3288755797251287 / 4503599627370496) = of_int (rne ((3288755797251287 / 4503599627370496) * 2 ^ 53)) / 2 ^ 53"
    by (rule b64_eval_down) simp_all
  also have "rne ((3288755797251287 / 4503599627370496) * 2 ^ 53) = 6577511594502574"
    by (simp add: rne_def Let_def)
  finally show ?thesis by simp
qed

lemma b64_step4: "b64 (1214843830119209 / 4503599627370496) = (1214843830119209 / 4503599627370496)"
proof -
  have "b64 (1214843830119209 / 4503599627370496) = of_int (rne ((1214843830119209 / 4503599627370496) * 2 ^ 54)) / 2 ^ 54"
    by (rule b64_eval_down) simp_all
  also have "rne ((1214843830119209 / 4503599627370496) * 2 ^ 54) = 4859375320476836"
    by (simp add: rne_def Let_def)
  finally show ?thesis by simp
qed

lemma b64_step5: "b64 (1475845531578709536275150785681 / 20282409603651670423947251286016) = (2621628303918139 / 36028797018963968)"
proof -
  have "b64 (1475845531578709536275150785681 / 20282409603651670423947251286016) = of_int (rne ((1475845531578709536275150785681 / 20282409603651670423947251286016) * 2 ^ 56)) / 2 ^ 56"
    by (rule b64_eval_down) simp_all
  also have "rne ((1475845531578709536275150785681 / 20282409603651670423947251286016) * 2 ^ 56) = 5243256607836278"
    by (simp add: rne_def Let_def)
  finally show ?thesis by simp
qed

lemma b64_step6: "b64 (3995324689059506261343738671983 / 20282409603651670423947251286016) = (7097122337035533 / 36028797018963968)"
proof -
  have "b64 (3995324689059506261343738671983 / 20282409603651670423947251286016) = of_int (rne ((3995324689059506261343738671983 / 20282409603651670423947251286016) * 2 ^ 55)) / 2 ^ 55"
    by (rule b64_eval_down) simp_all
  also have "rne ((3995324689059506261343738671983 / 20282409603651670423947251286016) * 2 ^ 55) = 7097122337035533"
    by (simp add: rne_def Let_def)
  finally show ?thesis by simp
qed

lemma b64_step7: "b64 (10815914693953948364984623156369 / 20282409603651670423947251286016) = (4803231010243691 / 9007199254740992)"
proof -
  have "b64 (10815914693953948364984623156369 / 20282409603651670423947251286016) = of_int (rne ((10815914693953948364984623156369 / 20282409603651670423947251286016) * 2 ^ 53)) / 2 ^ 53"
    by (rule b64_eval_down) simp_all
  also have "rne ((10815914693953948364984623156369 / 20282409603651670423947251286016) * 2 ^ 53) = 4803231010243691"
    by (simp add: rne_def Let_def)
  finally show ?thesis by simp
qed

lemma b64_step8: "b64 (668515217499125445 / 36028797018963968) = (2611387568355959 / 140737488355328)"
proof -
  have "b64 (668515217499125445 / 36028797018963968) = of_int (rne ((668515217499125445 / 36028797018963968) * 2 ^ 48)) / 2 ^ 48"
    by (rule b64_eval_down) simp_all
  also have "rne ((668515217499125445 / 36028797018963968) * 2 ^ 48) = 5222775136711918"
    by (simp add: rne_def Let_def)
  finally show ?thesis by simp
qed

lemma b64_step9: "b64 (1809766195944060915 / 36028797018963968) = (883674900363311 / 17592186044416)"
proof -
  have "b64 (1809766195944060915 / 36028797018963968) = of_int (rne ((1809766195944060915 / 36028797018963968) * 2 ^ 47)) / 2 ^ 47"
    by (rule b64_eval_down) simp_all
  also have "rne ((1809766195944060915 / 36028797018963968) * 2 ^ 47) = 7069399202906488"
    by (simp add: rne_def Let_def)
  finally show ?thesis by simp
qed

lemma b64_step10: "b64 (1224823907612141205 / 9007199254740992) = (4784468389109927 / 35184372088832)"
proof -
  have "b64 (1224823907612141205 / 9007199254740992) = of_int (rne ((1224823907612141205 / 9007199254740992) * 2 ^ 45)) / 2 ^ 45"
    by (rule b64_eval_down) simp_all
  also have "rne ((1224823907612141205 / 9007199254740992) * 2 ^ 45) = 4784468389109927"
    by (simp add: rne_def Let_def)
  finally show ?thesis by simp
qed

lemma b64_step11: "b64 (9680786771262447 / 140737488355328) = (605049173203903 / 8796093022208)"
proof -
  have "b64 (9680786771262447 / 140737488355328) = of_int (rne ((9680786771262447 / 140737488355328) * 2 ^ 46)) / 2 ^ 46"
    by (rule b64_eval_down) simp_all
  also have "rne ((9680786771262447 / 140737488355328) * 2 ^ 46) = 4840393385631224"
    by (simp add: rne_def Let_def)
  finally show ?thesis by simp
qed

lemma b64_step12: "b64 (2093773246771117 / 17592186044416) = (2093773246771117 / 17592186044416)"
proof -
  have "b64 (2093773246771117 / 17592186044416) = of_int (rne ((2093773246771117 / 17592186044416) * 2 ^ 46)) / 2 ^ 46"
    by (rule b64_eval_down) simp_all
  also have "rne ((2093773246771117 / 17592186044416) * 2 ^ 46) = 8375092987084468"
    by (simp add: rne_def Let_def)
  finally show ?thesis by simp
qed

lemma b64_step13: "b64 (8972014882652161 / 35184372088832) = (8972014882652161 / 35184372088832)"
proof -
  have "b64 (8972014882652161 / 35184372088832) = of_int (rne ((8972014882652161 / 35184372088832) * 2 ^ 45)) / 2 ^ 45"
    by (rule b64_eval_down) simp_all
  also have "rne ((8972014882652161 / 35184372088832) * 2 ^ 45) = 8972014882652161"
    by (simp add: rne_def Let_def)
  finally show ?thesis by simp
qed

lemma b64_step14: "b64 (8972014882652161 / 8972014882652160) = (4503599627370497 / 4503599627370496)"
proof -
  have "b64 (8972014882652161 / 8972014882652160) = of_int (rne ((8972014882652161 / 8972014882652160) * 2 ^ 52)) / 2 ^ 52"
    by (rule b64_eval_down) simp_all
  also have "rne ((8972014882652161 / 8972014882652160) * 2 ^ 52) = 4503599627370497"
    by (simp add: rne_def Let_def)
  finally show ?thesis by simp
qed

lemma b64_step15: "b64 (4503599627370497 / 2251799813685248) = (4503599627370497 / 2251799813685248)"
proof -
  have "b64 (4503599627370497 / 2251799813685248) = of_int (rne ((4503599627370497 / 2251799813685248) * 2 ^ 51)) / 2 ^ 51"
    by (rule b64_eval_down) simp_all
  also have "rne ((4503599627370497 / 2251799813685248) * 2 ^ 51) = 4503599627370497"
    by (simp add: rne_def Let_def)
  finally show ?thesis by simp
qed

lemma b64_step16: "b64 (2251799813685249 / 2251799813685248) = (2251799813685249 / 2251799813685248)"
proof -
  have "b64 (2251799813685249 / 2251799813685248) = of_int (rne ((2251799813685249 / 2251799813685248) * 2 ^ 52)) / 2 ^ 52"
    by (rule b64_eval_down) simp_all
  also have "rne ((2251799813685249 / 2251799813685248) * 2 ^ 52) = 4503599627370498"
    by (simp add: rne_def Let_def)
  finally show ?thesis by simp
qed

lemma read_all_255:
  "0 \<le> i \<Longrightarrow> i < int n \<Longrightarrow> read_u8 (replicate n 255) i = Some 255"
  by (simp add: read_u8_def)

lemma energy_coord_520_1: "energy_coord 520 1 = 8885714871729071 / 4611686018427387904"
  by (simp add: energy_coord_def b64_step0 b64_step1)

lemma decode_all_255:
  "sampleSaberField_rnd b64 (replicate 577600 255) 380 (energy_coord 520 1) (energy_coord 520 1)
     = Some \<lparr>f_dx = 1 + 1 / 2 ^ 51, f_dy = 1 + 1 / 2 ^ 51,
             f_spark = 1 + 1 / 2 ^ 52, f_fil = 1 + 1 / 2 ^ 52\<rparr>"
  by (simp add: sampleSaberField_rnd_def field_channel_rnd_def Let_def energy_coord_520_1
        read_all_255 b64_zero b64_step2 b64_step3 b64_step4 b64_step5 b64_step6 b64_step7
        b64_step8 b64_step9 b64_step10 b64_step11 b64_step12 b64_step13 b64_step14 b64_step15
        b64_step16)

lemma energy_coord_unit: "0 \<le> energy_coord 520 1 \<and> energy_coord 520 1 \<le> 1"
  by (simp add: energy_coord_520_1)

section \<open>Synthesis and packing of the turbulence field\<close>

lemma store_u8_hi: "255 \<le> k \<Longrightarrow> store_u8 k = 255"
  by (auto simp: store_u8_def)

lemma store_u8_lo: "k \<le> 0 \<Longrightarrow> store_u8 k = 0"
  by (auto simp: store_u8_def)

lemma half_is_div: "d * 0.5 = d / (2 :: real)"
  by simp

lemma pack_disp_above:
  assumes "1 \<le> d" "d \<le> 2"
  shows "pack_disp d = 255"
proof -
  define bd where "bd = b64 d"
  define e where "e = b64 (bd / 2 + 0.5)"
  define v where "v = b64 (e * 255)"
  have "of_int 1 \<le> bd \<and> bd \<le> of_int 2"
    unfolding bd_def using assms by (intro b64_between) simp_all
  then have bd: "1 \<le> bd" "bd \<le> 2" by simp_all
  have "of_int 1 \<le> e \<and> e \<le> of_int 2"
    unfolding e_def using bd by (intro b64_between) simp_all
  then have e: "1 \<le> e" "e \<le> 2" by simp_all
  have "of_int 255 \<le> v \<and> v \<le> of_int 510"
    unfolding v_def using e by (intro b64_between) simp_all
  then have v: "255 \<le> v" "v \<le> 510" by simp_all
  have t: "to_int32 v = \<lfloor>v\<rfloor>" using v by (intro to_int32_floor) simp_all
  have "255 \<le> \<lfloor>v\<rfloor>" using v(1) by (simp add: le_floor_iff)
  then have "store_u8 \<lfloor>v\<rfloor> = 255" by (rule store_u8_hi)
  then show ?thesis
    unfolding pack_disp_def half_is_div b64_half bd_def [symmetric] e_def [symmetric]
      v_def [symmetric] t .
qed

lemma pack_disp_below:
  assumes "- 2 \<le> d" "d \<le> - 1"
  shows "pack_disp d = 0"
proof -
  define bd where "bd = b64 d"
  define e where "e = b64 (bd / 2 + 0.5)"
  define v where "v = b64 (e * 255)"
  have "of_int (- 2) \<le> bd \<and> bd \<le> of_int (- 1)"
    unfolding bd_def using assms by (intro b64_between) simp_all
  then have bd: "- 2 \<le> bd" "bd \<le> - 1" by simp_all
  have "of_int (- 1) \<le> e \<and> e \<le> of_int 0"
    unfolding e_def using bd by (intro b64_between) simp_all
  then have e: "- 1 \<le> e" "e \<le> 0" by simp_all
  have "of_int (- 255) \<le> v \<and> v \<le> of_int 0"
    unfolding v_def using e by (intro b64_between) simp_all
  then have v: "- 255 \<le> v" "v \<le> 0" by simp_all
  have t: "to_int32 v = \<lceil>v\<rceil>" using v by (intro to_int32_ceiling) simp_all
  have "\<lceil>v\<rceil> \<le> 0" using v(2) by (simp add: ceiling_le_iff)
  then have "store_u8 \<lceil>v\<rceil> = 0" by (rule store_u8_lo)
  then show ?thesis
    unfolding pack_disp_def half_is_div b64_half bd_def [symmetric] e_def [symmetric]
      v_def [symmetric] t .
qed

lemma pack_disp_inside:
  assumes "- 1 \<le> d" "d \<le> 1"
  shows "pack_disp d \<le> 255
       \<and> d - 2 / 255 - 1 / 2 ^ 50 < real (pack_disp d) / 255 * 2 - 1
       \<and> real (pack_disp d) / 255 * 2 - 1 \<le> d + 1 / 2 ^ 50"
proof -
  define bd where "bd = b64 d"
  define e0 where "e0 = bd / 2 + 0.5"
  define e where "e = b64 e0"
  define v where "v = b64 (e * 255)"
  define k where "k = \<lfloor>v\<rfloor>"
  have "of_int (- 1) \<le> bd \<and> bd \<le> of_int 1"
    unfolding bd_def using assms by (intro b64_between) simp_all
  then have bd: "- 1 \<le> bd" "bd \<le> 1" by simp_all
  have bde: "\<bar>bd - d\<bar> \<le> 1 / 2 ^ 53"
    unfolding bd_def using assms by (intro b64_within) simp
  have e0: "0 \<le> e0" "e0 \<le> 1" using bd by (simp_all add: e0_def)
  have "of_int 0 \<le> e \<and> e \<le> of_int 1"
    unfolding e_def using e0 by (intro b64_between) simp_all
  then have e: "0 \<le> e" "e \<le> 1" by simp_all
  have ee: "\<bar>e - e0\<bar> \<le> 1 / 2 ^ 53"
    unfolding e_def using e0 by (intro b64_within) simp
  have "of_int 0 \<le> v \<and> v \<le> of_int 255"
    unfolding v_def using e by (intro b64_between) simp_all
  then have v: "0 \<le> v" "v \<le> 255" by simp_all
  have ve: "\<bar>v - e * 255\<bar> \<le> 255 / 2 ^ 53"
    unfolding v_def using e by (intro b64_within) simp
  have t: "to_int32 v = k" unfolding k_def using v by (intro to_int32_floor) simp_all
  have k: "0 \<le> k" "k \<le> 255" using v by (simp_all add: k_def floor_le_iff)
  have p: "pack_disp d = nat k"
    unfolding pack_disp_def half_is_div b64_half bd_def [symmetric] e0_def [symmetric]
      e_def [symmetric] v_def [symmetric] t
    using k by (simp add: store_u8_def)
  have rp: "real (pack_disp d) = of_int k" unfolding p using k by simp
  have kv: "of_int k \<le> v" "v < of_int k + 1" unfolding k_def by linarith+
  have X: "v \<le> 255 * (d / 2 + 0.5) + 255 * 5 / 2 ^ 54"
      "255 * (d / 2 + 0.5) - 255 * 5 / 2 ^ 54 \<le> v"
    using bde ee ve unfolding e0_def abs_le_iff by (simp_all add: field_simps)
  have "pack_disp d \<le> 255" unfolding p using k by simp
  moreover have "d - 2 / 255 - 1 / 2 ^ 50 < real (pack_disp d) / 255 * 2 - 1"
    unfolding rp using kv X by (simp add: field_simps)
  moreover have "real (pack_disp d) / 255 * 2 - 1 \<le> d + 1 / 2 ^ 50"
    unfolding rp using kv X by (simp add: field_simps)
  ultimately show ?thesis by simp
qed

lemma scaled_square_bound:
  fixes z :: real
  assumes "z\<^sup>2 \<le> 2"
  shows "\<bar>z * 1.15\<bar> < 1.63"
proof -
  have "\<bar>z * 1.15\<bar>\<^sup>2 = z\<^sup>2 * 1.3225" by (simp add: power2_eq_square)
  also have "\<dots> \<le> 2 * 1.3225" using assms by simp
  also have "\<dots> < (1.63 :: real)\<^sup>2" by (simp add: power2_eq_square)
  finally have "\<bar>z * 1.15\<bar>\<^sup>2 < (1.63 :: real)\<^sup>2" .
  then show ?thesis by (rule power2_less_imp_less) simp
qed

lemma rotation_bound:
  fixes a b c s :: real
  assumes "c\<^sup>2 + s\<^sup>2 = 1" "\<bar>a\<bar> \<le> 1" "\<bar>b\<bar> \<le> 1"
  shows "\<bar>(a * c - b * s) * 1.15\<bar> < 1.63" and "\<bar>(a * s + b * c) * 1.15\<bar> < 1.63"
proof -
  have id: "(a * c - b * s)\<^sup>2 + (a * s + b * c)\<^sup>2 = (a\<^sup>2 + b\<^sup>2) * (c\<^sup>2 + s\<^sup>2)"
    by (simp add: power2_eq_square algebra_simps)
  have "a\<^sup>2 \<le> 1" "b\<^sup>2 \<le> 1"
    using assms(2,3) by (simp_all add: abs_square_le_1)
  then have n: "(a * c - b * s)\<^sup>2 + (a * s + b * c)\<^sup>2 \<le> 2"
    unfolding id assms(1) by simp
  have "(a * c - b * s)\<^sup>2 \<le> 2" using n zero_le_power2 [of "a * s + b * c"] by linarith
  then show "\<bar>(a * c - b * s) * 1.15\<bar> < 1.63" by (rule scaled_square_bound)
  have "(a * s + b * c)\<^sup>2 \<le> 2" using n zero_le_power2 [of "a * c - b * s"] by linarith
  then show "\<bar>(a * s + b * c) * 1.15\<bar> < 1.63" by (rule scaled_square_bound)
qed

lemma curl_bound:
  assumes "0 \<le> nx" "nx \<le> 1" "0 \<le> ny" "ny \<le> 1"
  shows "\<bar>fst (curl nx ny)\<bar> < 1.63 \<and> \<bar>snd (curl nx ny)\<bar> < 1.63"
proof -
  define ang where "ang = (nx + ny - 1) * 1.65"
  have cs: "(cos ang)\<^sup>2 + (sin ang)\<^sup>2 = 1" by simp
  have a: "\<bar>(nx - 0.5) * 2\<bar> \<le> 1" using assms(1,2) by (simp add: abs_le_iff)
  have b: "\<bar>(ny - 0.5) * 2\<bar> \<le> 1" using assms(3,4) by (simp add: abs_le_iff)
  show ?thesis
    using rotation_bound [OF cs a b]
    by (simp add: curl_def Let_def ang_def)
qed

lemma curl_exceeds_one: "fst (curl 1 0) = 1.15 \<and> snd (curl 1 0) = - 1.15"
  by (simp add: curl_def Let_def)

lemma store_u8_le: "store_u8 k \<le> 255"
  by (auto simp: store_u8_def)

lemma rows_length:
  "length (concat (map (\<lambda>y. map (g y) [0..<w]) [0..<h])) = h * w"
  by (induction h) simp_all

lemma rows_nth:
  assumes "x < w" "y < h"
  shows "concat (map (\<lambda>y. map (g y) [0..<w]) [0..<h]) ! (y * w + x) = g y x"
  using assms(2)
proof (induction h)
  case 0
  then show ?case by simp
next
  case (Suc h)
  show ?case
  proof (cases "y < h")
    case True
    then have "y * w + x < h * w"
    proof -
      have "Suc y * w \<le> h * w" using True by (intro mult_le_mono1) simp
      then show ?thesis using assms(1) by simp
    qed
    then show ?thesis using Suc.IH [OF True] by (simp add: nth_append rows_length)
  next
    case False
    then have "y = h" using Suc.prems by simp
    then show ?thesis using assms(1) by (simp add: nth_append rows_length)
  qed
qed

lemma hash2i_unit: "0 \<le> hash2i x y seed" "hash2i x y seed \<le> 1"
proof -
  have "unat (hash2i_bits x y seed) < 2 ^ 32"
    using unsigned_less [of "hash2i_bits x y seed", where ?'a = nat] by simp
  then have "unat (hash2i_bits x y seed) \<le> 4294967295" by simp
  then have "real (unat (hash2i_bits x y seed)) \<le> real 4294967295"
    by (rule of_nat_mono)
  then show "hash2i x y seed \<le> 1" unfolding hash2i_def by (simp del: of_nat_unat)
  show "0 \<le> hash2i x y seed" unfolding hash2i_def by (simp del: of_nat_unat)
qed

lemma smoothstep_unit:
  assumes "0 \<le> t" "t \<le> 1"
  shows "0 \<le> smoothstep t" "smoothstep t \<le> 1"
proof -
  show "0 \<le> smoothstep t" using assms by (simp add: smoothstep_def)
  have "1 - smoothstep t = (1 - t) * (1 - t) * (1 + 2 * t)"
    by (simp add: smoothstep_def algebra_simps)
  moreover have "0 \<le> (1 - t) * (1 - t) * (1 + 2 * t)" using assms by simp
  ultimately show "smoothstep t \<le> 1" by linarith
qed

lemma lerp_unit:
  assumes "0 \<le> a" "a \<le> 1" "0 \<le> b" "b \<le> 1" "0 \<le> t" "t \<le> 1"
  shows "0 \<le> lerp a b t" "lerp a b t \<le> 1"
proof -
  have eq: "lerp a b t = a * (1 - t) + b * t" by (simp add: lerp_def algebra_simps)
  show "0 \<le> lerp a b t" unfolding eq using assms by simp
  have "a * (1 - t) \<le> 1 * (1 - t)" using assms by (intro mult_right_mono) simp_all
  moreover have "b * t \<le> 1 * t" using assms by (intro mult_right_mono) simp_all
  ultimately show "lerp a b t \<le> 1" unfolding eq by simp
qed

lemma valueNoise2D_unit: "0 \<le> valueNoise2D x y seed" "valueNoise2D x y seed \<le> 1"
proof -
  define u where "u = smoothstep (x - of_int \<lfloor>x\<rfloor>)"
  define v where "v = smoothstep (y - of_int \<lfloor>y\<rfloor>)"
  have fx: "0 \<le> x - of_int \<lfloor>x\<rfloor>" "x - of_int \<lfloor>x\<rfloor> \<le> 1" by linarith+
  have fy: "0 \<le> y - of_int \<lfloor>y\<rfloor>" "y - of_int \<lfloor>y\<rfloor> \<le> 1" by linarith+
  have u: "0 \<le> u" "u \<le> 1" unfolding u_def using fx by (rule smoothstep_unit)+
  have v: "0 \<le> v" "v \<le> 1" unfolding v_def using fy by (rule smoothstep_unit)+
  define ab where "ab = lerp (hash2i \<lfloor>x\<rfloor> \<lfloor>y\<rfloor> seed) (hash2i (\<lfloor>x\<rfloor> + 1) \<lfloor>y\<rfloor> seed) u"
  define cd where "cd = lerp (hash2i \<lfloor>x\<rfloor> (\<lfloor>y\<rfloor> + 1) seed) (hash2i (\<lfloor>x\<rfloor> + 1) (\<lfloor>y\<rfloor> + 1) seed) u"
  have ab: "0 \<le> ab" "ab \<le> 1" unfolding ab_def using u by (simp_all add: lerp_unit hash2i_unit)
  have cd: "0 \<le> cd" "cd \<le> 1" unfolding cd_def using u by (simp_all add: lerp_unit hash2i_unit)
  have eq: "valueNoise2D x y seed = lerp ab cd v"
    by (simp add: valueNoise2D_def Let_def ab_def cd_def u_def v_def)
  show "0 \<le> valueNoise2D x y seed" "valueNoise2D x y seed \<le> 1"
    unfolding eq using ab cd v by (simp_all add: lerp_unit)
qed

lemma fbm_loop_unit:
  assumes "0 \<le> sm" "sm \<le> nrm" "0 \<le> amp"
  shows "0 \<le> fbm_loop x y seed k i sm amp freq nrm \<and> fbm_loop x y seed k i sm amp freq nrm \<le> 1"
  using assms
proof (induction k arbitrary: i sm amp freq nrm)
  case 0
  then show ?case by simp
next
  case (Suc k)
  define n where "n = valueNoise2D (x * freq) (y * freq) (seed + int i * 1013)"
  have n: "0 \<le> n" "n \<le> 1" unfolding n_def by (rule valueNoise2D_unit)+
  have a: "0 \<le> sm + amp * n" using Suc.prems n by simp
  have "amp * n \<le> amp * 1" using Suc.prems n by (intro mult_left_mono) simp_all
  then have b: "sm + amp * n \<le> nrm + amp" using Suc.prems by simp
  have c: "0 \<le> amp * 0.5" using Suc.prems by simp
  show ?case
    using Suc.IH [OF a b c] by (simp add: n_def)
qed

lemma fbm2D_unit: "0 \<le> fbm2D x y octaves seed" "fbm2D x y octaves seed \<le> 1"
  using fbm_loop_unit [of 0 0 "0.5" x y seed octaves 0 1] by (simp_all add: fbm2D_def)

lemma rotate_back:
  fixes a b c s k :: real
  assumes "c * c + s * s = 1"
  shows "(a * c - b * s) * k * c + (a * s + b * c) * k * s = k * a"
    and "(a * s + b * c) * k * c - (a * c - b * s) * k * s = k * b"
    and "((a * c - b * s) * k)\<^sup>2 + ((a * s + b * c) * k)\<^sup>2 = k\<^sup>2 * (a\<^sup>2 + b\<^sup>2)"
proof -
  have "(a * c - b * s) * k * c + (a * s + b * c) * k * s = k * a * (c * c + s * s)"
    by (simp add: algebra_simps)
  then show "(a * c - b * s) * k * c + (a * s + b * c) * k * s = k * a"
    unfolding assms by simp
  have "(a * s + b * c) * k * c - (a * c - b * s) * k * s = k * b * (c * c + s * s)"
    by (simp add: algebra_simps)
  then show "(a * s + b * c) * k * c - (a * c - b * s) * k * s = k * b"
    unfolding assms by simp
  have "((a * c - b * s) * k)\<^sup>2 + ((a * s + b * c) * k)\<^sup>2
          = k\<^sup>2 * ((a\<^sup>2 + b\<^sup>2) * (c * c + s * s))"
    by (simp add: power2_eq_square algebra_simps)
  then show "((a * c - b * s) * k)\<^sup>2 + ((a * s + b * c) * k)\<^sup>2 = k\<^sup>2 * (a\<^sup>2 + b\<^sup>2)"
    unfolding assms by simp
qed

lemma curl_rotation:
  "fst (curl nx ny) * cos ((nx + ny - 1) * 1.65) + snd (curl nx ny) * sin ((nx + ny - 1) * 1.65)
     = 1.15 * ((nx - 0.5) * 2)
   \<and> snd (curl nx ny) * cos ((nx + ny - 1) * 1.65) - fst (curl nx ny) * sin ((nx + ny - 1) * 1.65)
     = 1.15 * ((ny - 0.5) * 2)
   \<and> (fst (curl nx ny))\<^sup>2 + (snd (curl nx ny))\<^sup>2
     = 1.15\<^sup>2 * (((nx - 0.5) * 2)\<^sup>2 + ((ny - 0.5) * 2)\<^sup>2)"
proof -
  define ang where "ang = (nx + ny - 1) * 1.65"
  define a where "a = (nx - 0.5) * 2"
  define b where "b = (ny - 0.5) * 2"
  have cs: "cos ang * cos ang + sin ang * sin ang = 1"
    using sin_cos_squared_add2 [of ang] by (simp add: power2_eq_square)
  have f: "fst (curl nx ny) = (a * cos ang - b * sin ang) * 1.15"
    and s: "snd (curl nx ny) = (a * sin ang + b * cos ang) * 1.15"
    by (simp_all add: curl_def Let_def ang_def a_def b_def)
  show ?thesis
    unfolding ang_def [symmetric] a_def [symmetric] b_def [symmetric] f s
    using rotate_back [OF cs, of a b "1.15"] by (intro conjI)
qed

lemma saber_disp_bound:
  "\<bar>fst (saber_disp res tSec opts x y)\<bar> < 1.63 \<and> \<bar>snd (saber_disp res tSec opts x y)\<bar> < 1.63"
  unfolding saber_disp_def Let_def by (intro curl_bound fbm2D_unit)

lemma saber_pixel_disp:
  "\<exists>s f. saber_pixel res tSec opts x y
            = [pack_disp (fst (saber_disp res tSec opts x y)),
               pack_disp (snd (saber_disp res tSec opts x y)), s, f]
         \<and> s \<le> 255 \<and> f \<le> 255"
  by (simp add: saber_pixel_def saber_disp_def Let_def pack_unit_def store_u8_le)

lemma concat_quads:
  assumes "\<forall>q\<in>set qs. length q = 4" "i < length qs"
  shows "take 4 (drop (i * 4) (concat qs)) = qs ! i"
  using assms
proof (induction qs arbitrary: i)
  case Nil
  then show ?case by simp
next
  case (Cons q qs)
  show ?case
  proof (cases i)
    case 0
    then show ?thesis using Cons.prems by simp
  next
    case (Suc j)
    then show ?thesis using Cons.prems Cons.IH [of j] by simp
  qed
qed

lemma concat_rows:
  "concat (concat (map (\<lambda>y. map (g y) xs) ys)) = concat (map (\<lambda>y. concat (map (g y) xs)) ys)"
  by (induction ys) simp_all

lemma saber_pixel_length: "length (saber_pixel res tSec opts x y) = 4"
  by (simp add: saber_pixel_def Let_def)

lemma renderSaberFields_pixel:
  assumes "x < nat res" "y < nat res"
  shows "take 4 (drop ((y * nat res + x) * 4) (renderSaberFields res tSec opts))
           = saber_pixel res tSec opts x y"
proof -
  define qs where "qs = concat (map (\<lambda>y. map (\<lambda>x. saber_pixel res tSec opts x y) [0..<nat res])
                                  [0..<nat res])"
  have r: "renderSaberFields res tSec opts = concat qs"
    unfolding renderSaberFields_def qs_def by (simp add: concat_rows)
  have len: "length qs = nat res * nat res" unfolding qs_def by (rule rows_length)
  have "y * nat res + x < nat res * nat res"
  proof -
    have "Suc y * nat res \<le> nat res * nat res" using assms(2) by (intro mult_le_mono1) simp
    then show ?thesis using assms(1) by simp
  qed
  then have i: "y * nat res + x < length qs" using len by simp
  have q: "\<forall>q\<in>set qs. length q = 4" unfolding qs_def by (auto simp: saber_pixel_length)
  have "qs ! (y * nat res + x) = saber_pixel res tSec opts x y"
    unfolding qs_def using assms by (rule rows_nth)
  then show ?thesis unfolding r using concat_quads [OF q i] by simp
qed

lemma pack_then_decode:
  assumes "\<bar>d\<bar> < 1.63"
  shows "pack_disp d \<le> 255
       \<and> (if d \<le> - 1 then b64 (b64 (b64 (real (pack_disp d) / 255) * 2) - 1) = - 1
           else if 1 \<le> d then b64 (b64 (b64 (real (pack_disp d) / 255) * 2) - 1) = 1
           else d - 2 / 255 - 1 / 2 ^ 48 < b64 (b64 (b64 (real (pack_disp d) / 255) * 2) - 1)
              \<and> b64 (b64 (b64 (real (pack_disp d) / 255) * 2) - 1) \<le> d + 1 / 2 ^ 48)"
proof -
  consider "d \<le> - 1" | "1 \<le> d" | "- 1 < d \<and> d < 1" by linarith
  then show ?thesis
  proof cases
    case 1
    then have "pack_disp d = 0" using assms by (intro pack_disp_below) simp_all
    then show ?thesis using 1 decode_byte_0 by simp
  next
    case 2
    then have "pack_disp d = 255" using assms by (intro pack_disp_above) simp_all
    then show ?thesis using 2 decode_byte_255 by simp
  next
    case 3
    have p: "pack_disp d \<le> 255"
      "d - 2 / 255 - 1 / 2 ^ 50 < real (pack_disp d) / 255 * 2 - 1"
      "real (pack_disp d) / 255 * 2 - 1 \<le> d + 1 / 2 ^ 50"
      using pack_disp_inside [of d] 3 by simp_all
    have n: "\<bar>b64 (b64 (b64 (real (pack_disp d) / 255) * 2) - 1)
               - (real (pack_disp d) / 255 * 2 - 1)\<bar> \<le> 1 / 2 ^ 50"
      using p(1) by (rule decode_byte_near)
    have "d - 2 / 255 - 1 / 2 ^ 48 < b64 (b64 (b64 (real (pack_disp d) / 255) * 2) - 1)"
      using p(2) n unfolding abs_le_iff by simp
    moreover have "b64 (b64 (b64 (real (pack_disp d) / 255) * 2) - 1) \<le> d + 1 / 2 ^ 48"
      using p(3) n unfolding abs_le_iff by simp
    ultimately show ?thesis using 3 p(1) by simp
  qed
qed

lemma rendered_pixel_decodes:
  assumes "x < nat res" "y < nat res"
  shows "\<exists>f. sampleSaberField_rnd b64
               (take 4 (drop ((y * nat res + x) * 4) (renderSaberFields res tSec opts))) 1 u v
             = Some f
           \<and> (if fst (saber_disp res tSec opts x y) \<le> - 1 then f_dx f = - 1
               else if 1 \<le> fst (saber_disp res tSec opts x y) then f_dx f = 1
               else fst (saber_disp res tSec opts x y) - 2 / 255 - 1 / 2 ^ 48 < f_dx f
                  \<and> f_dx f \<le> fst (saber_disp res tSec opts x y) + 1 / 2 ^ 48)
           \<and> (if snd (saber_disp res tSec opts x y) \<le> - 1 then f_dy f = - 1
               else if 1 \<le> snd (saber_disp res tSec opts x y) then f_dy f = 1
               else snd (saber_disp res tSec opts x y) - 2 / 255 - 1 / 2 ^ 48 < f_dy f
                  \<and> f_dy f \<le> snd (saber_disp res tSec opts x y) + 1 / 2 ^ 48)"
proof -
  define d where "d = saber_disp res tSec opts x y"
  obtain s a where px: "saber_pixel res tSec opts x y = [pack_disp (fst d), pack_disp (snd d), s, a]"
    and sa: "s \<le> 255" "a \<le> 255"
    using saber_pixel_disp [of res tSec opts x y] unfolding d_def by blast
  have b: "\<bar>fst d\<bar> < 1.63" "\<bar>snd d\<bar> < 1.63"
    using saber_disp_bound [of res tSec opts x y] unfolding d_def by simp_all
  note rx = pack_then_decode [OF b(1)]
  note ry = pack_then_decode [OF b(2)]
  define g where "g = \<lparr>f_dx = b64 (b64 (b64 (real (pack_disp (fst d)) / 255) * 2) - 1),
                          f_dy = b64 (b64 (b64 (real (pack_disp (snd d)) / 255) * 2) - 1),
                          f_spark = b64 (real s / 255), f_fil = b64 (real a / 255)\<rparr>"
  have "sampleSaberField_rnd b64 [pack_disp (fst d), pack_disp (snd d), s, a] 1 u v = Some g"
    unfolding g_def using rx ry sa by (intro sampleSaberField_b64_one_pixel) simp_all
  then have dec: "sampleSaberField_rnd b64
               (take 4 (drop ((y * nat res + x) * 4) (renderSaberFields res tSec opts))) 1 u v
             = Some g"
    unfolding renderSaberFields_pixel [OF assms] px .
  have fx: "f_dx g = b64 (b64 (b64 (real (pack_disp (fst d)) / 255) * 2) - 1)"
    and fy: "f_dy g = b64 (b64 (b64 (real (pack_disp (snd d)) / 255) * 2) - 1)"
    by (simp_all add: g_def)
  have gx: "if fst d \<le> - 1 then f_dx g = - 1
               else if 1 \<le> fst d then f_dx g = 1
               else fst d - 2 / 255 - 1 / 2 ^ 48 < f_dx g \<and> f_dx g \<le> fst d + 1 / 2 ^ 48"
    unfolding fx using rx by (rule conjunct2)
  have gy: "if snd d \<le> - 1 then f_dy g = - 1
               else if 1 \<le> snd d then f_dy g = 1
               else snd d - 2 / 255 - 1 / 2 ^ 48 < f_dy g \<and> f_dy g \<le> snd d + 1 / 2 ^ 48"
    unfolding fy using ry by (rule conjunct2)
  show ?thesis using dec gx gy unfolding d_def by blast
qed

text \<open>
  C10. In binary64, \<open>sampleSaberField\<close> on a \<open>res \<times> res\<close> buffer of arbitrary bytes, at a
  normalised position, decodes displacement components in \<open>[-1, 1 + 2^-48]\<close> and spark and
  filament intensities in \<open>[0, 1 + 2^-48]\<close>: the lower ends are exact, the upper end 1 is
  exceeded through rounding. The displacement that \<open>renderSaberFields\<close> packs is the pair
  of fbm samples remapped to \<open>[-1,1]\<close>, rotated by \<open>(nx + ny - 1) * 1.65\<close> and scaled by
  1.15: rotating it back gives 1.15 times the remapped samples, so its length is 1.15
  times theirs, and for the samples 1 and 0 its components are \<open>1.15\<close> and \<open>-1.15\<close>. For
  every pixel that \<open>renderSaberFields\<close> writes, both components are below 1.63 in
  magnitude, and the four bytes of the pixel decode to \<open>-1\<close> for a component at or below
  \<open>-1\<close>, to \<open>1\<close> for a component at or above \<open>1\<close>, and otherwise to the component
  itself up to the quantisation step \<open>2/255\<close> (and \<open>2^-48\<close> for rounding).
\<close>

theorem turbulence_packing:
  assumes "1 \<le> res" "res \<le> 2 ^ 53" "int (length nd) = res * res * 4" "\<forall>b\<in>set nd. b \<le> 255"
    and "0 \<le> u" "u \<le> 1" "0 \<le> v" "v \<le> 1" "x < nat res" "y < nat res"
  shows "(\<exists>f. sampleSaberField_rnd b64 nd res u v = Some f
           \<and> - 1 \<le> f_dx f \<and> f_dx f \<le> 1 + 1 / 2 ^ 48
           \<and> - 1 \<le> f_dy f \<and> f_dy f \<le> 1 + 1 / 2 ^ 48
           \<and> 0 \<le> f_spark f \<and> f_spark f \<le> 1 + 1 / 2 ^ 48
           \<and> 0 \<le> f_fil f \<and> f_fil f \<le> 1 + 1 / 2 ^ 48)
       \<and> fst (curl nx ny) * cos ((nx + ny - 1) * 1.65) + snd (curl nx ny) * sin ((nx + ny - 1) * 1.65)
           = 1.15 * ((nx - 0.5) * 2)
       \<and> snd (curl nx ny) * cos ((nx + ny - 1) * 1.65) - fst (curl nx ny) * sin ((nx + ny - 1) * 1.65)
           = 1.15 * ((ny - 0.5) * 2)
       \<and> (fst (curl nx ny))\<^sup>2 + (snd (curl nx ny))\<^sup>2
           = 1.15\<^sup>2 * (((nx - 0.5) * 2)\<^sup>2 + ((ny - 0.5) * 2)\<^sup>2)
       \<and> fst (curl 1 0) = 1.15 \<and> snd (curl 1 0) = - 1.15
       \<and> \<bar>fst (saber_disp res tSec opts x y)\<bar> < 1.63
       \<and> \<bar>snd (saber_disp res tSec opts x y)\<bar> < 1.63
       \<and> (\<exists>f. sampleSaberField_rnd b64
                  (take 4 (drop ((y * nat res + x) * 4) (renderSaberFields res tSec opts))) 1 u v
                = Some f
              \<and> (if fst (saber_disp res tSec opts x y) \<le> - 1 then f_dx f = - 1
                  else if 1 \<le> fst (saber_disp res tSec opts x y) then f_dx f = 1
                  else fst (saber_disp res tSec opts x y) - 2 / 255 - 1 / 2 ^ 48 < f_dx f
                     \<and> f_dx f \<le> fst (saber_disp res tSec opts x y) + 1 / 2 ^ 48)
              \<and> (if snd (saber_disp res tSec opts x y) \<le> - 1 then f_dy f = - 1
                  else if 1 \<le> snd (saber_disp res tSec opts x y) then f_dy f = 1
                  else snd (saber_disp res tSec opts x y) - 2 / 255 - 1 / 2 ^ 48 < f_dy f
                     \<and> f_dy f \<le> snd (saber_disp res tSec opts x y) + 1 / 2 ^ 48))"
proof -
  note a = sampleSaberField_b64_range [OF assms(1-8)]
  note r = curl_rotation [of nx ny]
  note r1 = r [THEN conjunct1]
  note r2 = r [THEN conjunct2, THEN conjunct1]
  note r3 = r [THEN conjunct2, THEN conjunct2]
  note c1 = curl_exceeds_one [THEN conjunct1]
  note c2 = curl_exceeds_one [THEN conjunct2]
  note b = saber_disp_bound [of res tSec opts x y]
  note b1 = b [THEN conjunct1]
  note b2 = b [THEN conjunct2]
  note p = rendered_pixel_decodes [OF assms(9,10), of tSec opts u v]
  from a r1 r2 r3 c1 c2 b1 b2 p show ?thesis by (intro conjI)
qed

theorem turbulence_packing_witness:
  "(1 :: int) \<le> 380 \<and> (380 :: int) \<le> 2 ^ 53
   \<and> int (length (replicate 577600 (255 :: nat))) = 380 * 380 * 4
   \<and> list_all (\<lambda>b. b \<le> 255) (replicate 577600 (255 :: nat))
   \<and> 0 \<le> energy_coord 520 1 \<and> energy_coord 520 1 \<le> 1
   \<and> (\<exists>f. sampleSaberField_rnd b64 (replicate 577600 255) 380 (energy_coord 520 1)
              (energy_coord 520 1) = Some f
          \<and> - 1 \<le> f_dx f \<and> f_dx f \<le> 1 + 1 / 2 ^ 48 \<and> 0 \<le> f_spark f \<and> f_spark f \<le> 1 + 1 / 2 ^ 48)
   \<and> (fst (curl 1 0))\<^sup>2 + (snd (curl 1 0))\<^sup>2 = 1.15\<^sup>2 * 2
   \<and> \<bar>fst (saber_disp 380 0 saber_opts0 0 0)\<bar> < 1.63"
proof -
  have h1: "(1 :: int) \<le> 380" by simp
  have h2: "(380 :: int) \<le> 2 ^ 53" by simp
  have h3: "int (length (replicate 577600 (255 :: nat))) = 380 * 380 * 4" by simp
  have h4: "\<forall>b\<in>set (replicate 577600 (255 :: nat)). b \<le> 255" by simp
  have h5: "0 \<le> energy_coord 520 1" using energy_coord_unit by (rule conjunct1)
  have h6: "energy_coord 520 1 \<le> 1" using energy_coord_unit by (rule conjunct2)
  have h7: "(0 :: nat) < nat 380" by simp
  note t = turbulence_packing [OF h1 h2 h3 h4 h5 h6 h5 h6 h7 h7,
      where nx = 1 and ny = 0 and tSec = 0 and opts = saber_opts0]
  note t1 = t [THEN conjunct1]
  note t4 = t [THEN conjunct2, THEN conjunct2, THEN conjunct2, THEN conjunct1]
  note t7 = t [THEN conjunct2, THEN conjunct2, THEN conjunct2, THEN conjunct2, THEN conjunct2,
      THEN conjunct2, THEN conjunct1]
  obtain f where f: "sampleSaberField_rnd b64 (replicate 577600 255) 380 (energy_coord 520 1)
              (energy_coord 520 1) = Some f"
      "- 1 \<le> f_dx f" "f_dx f \<le> 1 + 1 / 2 ^ 48" "0 \<le> f_spark f" "f_spark f \<le> 1 + 1 / 2 ^ 48"
    using t1 by blast
  have a: "\<exists>f. sampleSaberField_rnd b64 (replicate 577600 255) 380 (energy_coord 520 1)
              (energy_coord 520 1) = Some f
          \<and> - 1 \<le> f_dx f \<and> f_dx f \<le> 1 + 1 / 2 ^ 48 \<and> 0 \<le> f_spark f \<and> f_spark f \<le> 1 + 1 / 2 ^ 48"
    using f by (intro exI [of _ f] conjI)
  have b: "(fst (curl 1 0))\<^sup>2 + (snd (curl 1 0))\<^sup>2 = 1.15\<^sup>2 * 2"
    using t4 by simp
  have l: "list_all (\<lambda>b. b \<le> 255) (replicate 577600 (255 :: nat))"
    by (simp add: list_all_iff)
  from h1 h2 h3 l h5 h6 a b t7 show ?thesis by (intro conjI)
qed

text \<open>
  A \<open>380 \<times> 380\<close> buffer filled with the byte 255, sampled at the position of column 1,
  row 1 of a \<open>520 \<times> 520\<close> energy buffer, decodes in binary64 to displacement components
  \<open>1 + 2^-51\<close> and intensities \<open>1 + 2^-52\<close>: both above 1.
\<close>

theorem decode_exceeds_one:
  "sampleSaberField_rnd b64 (replicate 577600 255) 380 (energy_coord 520 1) (energy_coord 520 1)
     = Some \<lparr>f_dx = 1 + 1 / 2 ^ 51, f_dy = 1 + 1 / 2 ^ 51,
             f_spark = 1 + 1 / 2 ^ 52, f_fil = 1 + 1 / 2 ^ 52\<rparr>"
  by (simp add: sampleSaberField_rnd_def field_channel_rnd_def Let_def energy_coord_520_1
        read_all_255 b64_zero b64_step2 b64_step3 b64_step4 b64_step5 b64_step6 b64_step7
        b64_step8 b64_step9 b64_step10 b64_step11 b64_step12 b64_step13 b64_step14 b64_step15
        b64_step16)

section \<open>The energy mask\<close>

lemma those_all_Some:
  assumes "\<forall>z\<in>set zs. z \<noteq> None"
  shows "those zs = Some (map the zs)"
  using assms by (induction zs) auto

lemma unit_coord:
  fixes x w :: nat
  assumes "x < w"
  shows "0 \<le> real x * (1 / max 1 (real w - 1)) \<and> real x * (1 / max 1 (real w - 1)) \<le> 1"
proof -
  have "real x \<le> real w - 1" using assms by (simp add: of_nat_diff)
  then have "real x \<le> max 1 (real w - 1)" by simp
  moreover have "0 < max 1 (real w - 1)" by simp
  ultimately show ?thesis by (simp add: del: max.bounded_iff)
qed

lemma energy_sample_defined:
  assumes "1 \<le> o_w ob" "o_w ob \<le> 2 ^ 31" "1 \<le> o_h ob" "o_h ob \<le> 2 ^ 31"
    and "int (length (o_data ob)) = o_w ob * o_h ob * 4"
    and "1 \<le> n_res ns" "int (length (n_data ns)) = n_res ns * n_res ns * 4"
    and "\<forall>b\<in>set (n_data ns). b \<le> 255"
    and "x < w" "y < h"
  shows "\<exists>fld oa. energy_sample w h ob ns tSec opts x y = Some (fld, oa)"
proof -
  define u where "u = real x * (1 / max 1 (real w - 1))"
  define v where "v = real y * (1 / max 1 (real h - 1))"
  have u: "0 \<le> u" "u \<le> 1" using unit_coord [OF assms(9)] by (simp_all add: u_def)
  have v: "0 \<le> v" "v \<le> 1" using unit_coord [OF assms(10)] by (simp_all add: v_def)
  obtain fld where fld: "sampleSaberField (n_data ns) (n_res ns) u v = Some fld"
    using sampleSaberField_range [OF assms(6,7,8) u v] by blast
  have "\<exists>oa. sampleOutlineAlphaNearest (o_data ob) (o_w ob) (o_h ob) ox oy = Some oa" for ox oy
    using outline_read_in_bounds [OF assms(1-5)] by blast
  then show ?thesis
    unfolding energy_sample_def Let_def u_def [symmetric] v_def [symmetric] fld
    by (simp split: option.split)
qed

lemma energy_pixel_of_sample:
  assumes "energy_sample w h ob ns tSec opts x y = Some (fld, oa)"
  shows "\<exists>a\<le>255. energy_pixel w h ob ns tSec opts x y
            = Some (if oa = 0 then [0, 0, 0, 0] else [255, 255, 255, a])"
proof (cases "oa = 0")
  case True
  then have "energy_pixel w h ob ns tSec opts x y = Some [0, 0, 0, 0]"
    unfolding energy_pixel_def assms by simp
  then show ?thesis using True by auto
next
  case False
  then obtain a where "energy_pixel w h ob ns tSec opts x y = Some [255, 255, 255, store_u8 a]"
    unfolding energy_pixel_def assms by (simp add: Let_def)
  then show ?thesis using False store_u8_le by auto
qed

text \<open>
  C7. For a well-formed outline buffer and noise buffer, the compositor writes every
  pixel of the \<open>w \<times> h\<close> energy buffer, and the pixel at column \<open>x\<close>, row \<open>y\<close> is
  \<open>(0, 0, 0, 0)\<close> when the outline alpha \<open>oa\<close> sampled at the displaced, rescaled
  coordinate is 0, and \<open>(255, 255, 255, a)\<close> with some alpha byte \<open>a\<close> otherwise.
\<close>

theorem renderSaberEnergyMask_white_or_transparent:
  assumes "1 \<le> o_w ob" "o_w ob \<le> 2 ^ 31" "1 \<le> o_h ob" "o_h ob \<le> 2 ^ 31"
    and "int (length (o_data ob)) = o_w ob * o_h ob * 4"
    and "1 \<le> n_res ns" "int (length (n_data ns)) = n_res ns * n_res ns * 4"
    and "\<forall>b\<in>set (n_data ns). b \<le> 255"
    and "x < w" "y < h"
  shows "\<exists>fld oa a pxs.
           energy_sample w h ob ns tSec opts x y = Some (fld, oa)
         \<and> a \<le> 255
         \<and> those (energy_pixels w h ob ns tSec opts) = Some pxs
         \<and> renderSaberEnergyMask w h ob ns tSec opts = Some (concat pxs)
         \<and> length pxs = h * w
         \<and> pxs ! (y * w + x) = (if oa = 0 then [0, 0, 0, 0] else [255, 255, 255, a])"
proof -
  let ?g = "\<lambda>y x. energy_pixel w h ob ns tSec opts x y"
  have px: "\<exists>fld oa. energy_sample w h ob ns tSec opts x' y' = Some (fld, oa)"
    if "x' < w" "y' < h" for x' y'
    using assms(1-8) that by (rule energy_sample_defined)
  have defined: "?g y' x' \<noteq> None" if "x' < w" "y' < h" for x' y'
    using px [OF that] energy_pixel_of_sample by fastforce
  have all: "\<forall>z\<in>set (energy_pixels w h ob ns tSec opts). z \<noteq> None"
    using defined by (auto simp: energy_pixels_def)
  define pxs where "pxs = map the (energy_pixels w h ob ns tSec opts)"
  have th: "those (energy_pixels w h ob ns tSec opts) = Some pxs"
    unfolding pxs_def using all by (rule those_all_Some)
  then have r: "renderSaberEnergyMask w h ob ns tSec opts = Some (concat pxs)"
    by (simp add: renderSaberEnergyMask_def)
  have len: "length pxs = h * w"
    by (simp add: pxs_def energy_pixels_def rows_length)
  have i: "y * w + x < h * w"
  proof -
    have "Suc y * w \<le> h * w" using assms(10) by (intro mult_le_mono1) simp
    then show ?thesis using assms(9) by simp
  qed
  have nth: "pxs ! (y * w + x) = the (?g y x)"
    using i rows_nth [OF assms(9,10), of ?g]
    by (simp add: pxs_def energy_pixels_def rows_length)
  obtain fld oa where s: "energy_sample w h ob ns tSec opts x y = Some (fld, oa)"
    using px [OF assms(9,10)] by blast
  obtain a where a: "a \<le> 255"
      "?g y x = Some (if oa = 0 then [0, 0, 0, 0] else [255, 255, 255, a])"
    using energy_pixel_of_sample [OF s] by blast
  have "pxs ! (y * w + x) = (if oa = 0 then [0, 0, 0, 0] else [255, 255, 255, a])"
    unfolding nth a(2) by simp
  with s a(1) th r len show ?thesis by blast
qed

theorem renderSaberEnergyMask_white_or_transparent_witness:
  "1 \<le> o_w outline1 \<and> o_w outline1 \<le> 2 ^ 31 \<and> 1 \<le> o_h outline1 \<and> o_h outline1 \<le> 2 ^ 31
   \<and> int (length (o_data outline1)) = o_w outline1 * o_h outline1 * 4
   \<and> 1 \<le> n_res noise1 \<and> int (length (n_data noise1)) = n_res noise1 * n_res noise1 * 4
   \<and> list_all (\<lambda>b. b \<le> 255) (n_data noise1) \<and> (0 :: nat) < 1
   \<and> (\<exists>fld oa a pxs.
           energy_sample 1 1 outline1 noise1 0 energy_opts0 0 0 = Some (fld, oa)
         \<and> a \<le> 255
         \<and> those (energy_pixels 1 1 outline1 noise1 0 energy_opts0) = Some pxs
         \<and> renderSaberEnergyMask 1 1 outline1 noise1 0 energy_opts0 = Some (concat pxs)
         \<and> length pxs = 1 * 1
         \<and> pxs ! (0 * 1 + 0) = (if oa = 0 then [0, 0, 0, 0] else [255, 255, 255, a]))"
proof -
  have h: "1 \<le> o_w outline1" "o_w outline1 \<le> 2 ^ 31" "1 \<le> o_h outline1"
      "o_h outline1 \<le> 2 ^ 31"
      "int (length (o_data outline1)) = o_w outline1 * o_h outline1 * 4"
      "1 \<le> n_res noise1" "int (length (n_data noise1)) = n_res noise1 * n_res noise1 * 4"
      "\<forall>b\<in>set (n_data noise1). b \<le> 255" "(0 :: nat) < 1"
    by (simp_all add: outline1_def noise1_def)
  have b: "list_all (\<lambda>b. b \<le> 255) (n_data noise1)" by (simp add: noise1_def)
  note c = renderSaberEnergyMask_white_or_transparent [OF h(1-8) h(9) h(9), of 0 energy_opts0]
  from h(1-7) b h(9) c show ?thesis by (intro conjI)
qed

section \<open>Region classification\<close>

text \<open>
  C2. The layer chosen for a tile is the first region, in the order hair, headband
  (when active), beak, feet, whose mask holds the tile's point (the alpha of the nearest
  pixel is positive), and body when none does; so a tile whose point lies in both the
  hair mask and the beak mask goes to hair. The loop draws exactly the text tiles, each
  into the layer so chosen.
\<close>

theorem classification_priority:
  "bucket_of headbandActive hairMask headbandMask beakMask feetMask it
     = spec_classify (spec_priority headbandActive hairMask headbandMask beakMask feetMask)
         (t_x it) (t_y it)
   \<and> (insideFactory hairMask (t_x it) (t_y it) \<and> insideFactory beakMask (t_x it) (t_y it)
        \<longrightarrow> bucket_of headbandActive hairMask headbandMask beakMask feetMask it = Hair
          \<and> bucket_of headbandActive hairMask headbandMask beakMask feetMask it \<noteq> Beak)
   \<and> draw_names headbandActive hairMask headbandMask beakMask feetMask items
       = map (\<lambda>it. (spec_classify
                      (spec_priority headbandActive hairMask headbandMask beakMask feetMask)
                      (t_x it) (t_y it), it))
           (filter (\<lambda>it. t_kind it = ''text'') items)"
proof -
  have eq: "bucket_of headbandActive hairMask headbandMask beakMask feetMask t
     = spec_classify (spec_priority headbandActive hairMask headbandMask beakMask feetMask)
         (t_x t) (t_y t)" for t
    by (cases headbandMask)
       (simp_all add: bucket_of_def spec_classify_def spec_priority_def Let_def)
  have hair: "bucket_of headbandActive hairMask headbandMask beakMask feetMask it = Hair"
    if "insideFactory hairMask (t_x it) (t_y it)"
    using that by (simp add: bucket_of_def Let_def)
  show ?thesis using eq hair by (simp add: draw_names_def)
qed

theorem classification_priority_witness:
  "insideFactory opaque_pixel_mask (t_x tile0) (t_y tile0)
   \<and> bucket_of False opaque_pixel_mask None opaque_pixel_mask empty_pixel_mask tile0 = Hair
   \<and> bucket_of False opaque_pixel_mask None opaque_pixel_mask empty_pixel_mask tile0 \<noteq> Beak"
proof -
  have h: "insideFactory opaque_pixel_mask (t_x tile0) (t_y tile0)"
    by (simp add: insideFactory_def opaque_pixel_mask_def tile0_def read_u8_def js_round_def)
  have "bucket_of False opaque_pixel_mask None opaque_pixel_mask empty_pixel_mask tile0 = Hair"
    using h classification_priority
            [of False opaque_pixel_mask None opaque_pixel_mask empty_pixel_mask tile0 "[]"]
    by blast
  with h show ?thesis by simp
qed

section \<open>The static outline glow\<close>

text \<open>
  C3. When the final stage composes, the static outline glow pass is among the passes
  of the composite exactly when the outline mask image is loaded and the population is
  below the threshold; no other pass fills through the outline mask.
\<close>

theorem static_outline_glow_iff:
  assumes "final_stage plan maskBitmaps total' CAP = Some r"
  shows "(static_outline_glow \<in> set (fs_cmds r) \<longleftrightarrow> b_outline maskBitmaps \<noteq> None \<and> total' < CAP)
       \<and> (draws_through OutlineMask (fs_cmds r) \<longleftrightarrow> b_outline maskBitmaps \<noteq> None \<and> total' < CAP)"
  using assms
  by (auto simp: final_stage_def Let_def drawMaskFill1x_def static_outline_glow_def
        draws_through_def split: option.splits if_splits)

theorem static_outline_glow_iff_witness:
  "final_stage (Some plan0) masks_with_outline 500 3500
     = Some (the (final_stage (Some plan0) masks_with_outline 500 3500))
   \<and> static_outline_glow
        \<in> set (fs_cmds (the (final_stage (Some plan0) masks_with_outline 500 3500)))
   \<and> final_stage (Some plan0) masks_with_outline 4000 3500
     = Some (the (final_stage (Some plan0) masks_with_outline 4000 3500))
   \<and> static_outline_glow
        \<notin> set (fs_cmds (the (final_stage (Some plan0) masks_with_outline 4000 3500)))"
proof -
  have a: "final_stage (Some plan0) masks_with_outline 500 3500
     = Some (the (final_stage (Some plan0) masks_with_outline 500 3500))"
    by (simp add: final_stage_def Let_def plan0_def masks_with_outline_def)
  have b: "final_stage (Some plan0) masks_with_outline 4000 3500
     = Some (the (final_stage (Some plan0) masks_with_outline 4000 3500))"
    by (simp add: final_stage_def Let_def plan0_def masks_with_outline_def)
  have o: "b_outline masks_with_outline \<noteq> None" by (simp add: masks_with_outline_def)
  have c1: "static_outline_glow
        \<in> set (fs_cmds (the (final_stage (Some plan0) masks_with_outline 500 3500)))"
    using static_outline_glow_iff [OF a] o by simp
  have c2: "static_outline_glow
        \<notin> set (fs_cmds (the (final_stage (Some plan0) masks_with_outline 4000 3500)))"
    using static_outline_glow_iff [OF b] by simp
  show ?thesis using a b c1 c2 by (intro conjI)
qed

text \<open>
  Population 500 with threshold 3500, every required image loaded, outline image
  missing: the final stage composes, and the static outline glow is not drawn.
\<close>

theorem static_outline_glow_absent_below_threshold:
  "final_stage (Some plan0) masks_no_outline 500 3500 \<noteq> None
   \<and> (500 :: int) < 3500
   \<and> static_outline_glow \<notin> set (fs_cmds (the (final_stage (Some plan0) masks_no_outline 500 3500)))"
  by (simp add: final_stage_def Let_def drawMaskFill1x_def static_outline_glow_def
        plan0_def masks_no_outline_def masks_with_outline_def)

section \<open>The crossfade\<close>

lemma over_one_clear: "over 1 p (0, 0, 0, 0) = p"
  by (cases p) (simp add: over_def)

lemma over_zero: "over 0 p q = q"
  by (cases p, cases q) (simp add: over_def)

lemma draw_image_one_clear: "draw_image 1 b (clearRect (length b)) = b"
  by (induction b) (simp_all add: draw_image_def clearRect_def over_one_clear)

lemma length_clearRect: "length (clearRect n) = n"
  by (simp add: clearRect_def)

lemma draw_image_zero:
  "length b = length c \<Longrightarrow> draw_image 0 b c = c"
  unfolding draw_image_def
proof (induction c arbitrary: b)
  case Nil
  then show ?case by simp
next
  case (Cons q c)
  then obtain p b' where b: "b = p # b'" by (cases b) auto
  with Cons show ?case by (simp add: over_zero)
qed

lemma blit_is_buffer: "blitBufferToVisible True (Some b) = Some b"
  by (simp add: blitBufferToVisible_def draw_image_one_clear)

lemma over_clear: "over ga (sr, sg, sb, sa) (0, 0, 0, 0) = (sr * ga, sg * ga, sb * ga, sa * ga)"
  by (simp add: over_def)

lemma draw_image_nth:
  assumes "i < length src" "i < length dst"
  shows "draw_image ga src dst ! i = over ga (src ! i) (dst ! i)"
  using assms by (simp add: draw_image_def)

lemma length_draw_image: "length (draw_image ga src dst) = min (length src) (length dst)"
  by (simp add: draw_image_def)

lemma fade_frame_pixel:
  assumes "length from = length final" "i < length from"
    and "from ! i = (fr, fg, fb, fa)" "final ! i = (gr, gg, gb, ga)"
  shows "draw_image b final (draw_image a from (clearRect (length from))) ! i
           = (gr * b + fr * a * (1 - ga * b), gg * b + fg * a * (1 - ga * b),
              gb * b + fb * a * (1 - ga * b), ga * b + fa * a * (1 - ga * b))"
proof -
  have c: "clearRect (length from) ! i = (0, 0, 0, 0)"
    using assms(2) by (simp add: clearRect_def)
  have s1: "draw_image a from (clearRect (length from)) ! i = (fr * a, fg * a, fb * a, fa * a)"
    using assms(2) by (simp add: draw_image_nth length_clearRect c assms(3) over_clear)
  have l: "i < length (draw_image a from (clearRect (length from)))"
    using assms(2) by (simp add: length_draw_image length_clearRect)
  have i2: "i < length final" using assms(1,2) by simp
  have "draw_image b final (draw_image a from (clearRect (length from))) ! i
          = over b (final ! i) (draw_image a from (clearRect (length from)) ! i)"
    using i2 l by (rule draw_image_nth)
  then show ?thesis unfolding s1 assms(4) by (simp add: over_def Let_def)
qed

lemma fade_frame:
  "fade True from final start now
     = Some \<lparr>fd_surface = draw_image ((min 1 ((now - start) / 380))\<^sup>2) final
                 (draw_image (1 - (min 1 ((now - start) / 380))\<^sup>2) from (clearRect (length from))),
             fd_again = (now - start < 380), fd_hasFinal = (380 \<le> now - start)\<rparr>"
  by (auto simp: fade_def Let_def fade_t_def DURATION_def fade_alpha_from_def fade_alpha_final_def
        power2_eq_square min_def)

lemma fade_first_frame:
  assumes "length from = length final"
  shows "fade True from final start start
           = Some \<lparr>fd_surface = from, fd_again = True, fd_hasFinal = False\<rparr>"
proof -
  have s1: "draw_image 1 from (clearRect (length from)) = from"
    by (rule draw_image_one_clear)
  have s2: "draw_image 0 final from = from"
    using assms by (simp add: draw_image_zero)
  show ?thesis unfolding fade_frame by (simp add: s1 s2)
qed

lemma fade_last_frame:
  assumes "length from = length final" "0 \<le> late"
  shows "fade True from final start (start + 380 + late)
           = Some \<lparr>fd_surface = final, fd_again = False, fd_hasFinal = True\<rparr>"
proof -
  have t: "min 1 ((start + 380 + late - start) / 380) = 1" using assms(2) by simp
  have s3: "draw_image 0 from (clearRect (length from)) = clearRect (length from)"
    by (simp add: draw_image_zero length_clearRect)
  have s4: "draw_image 1 final (clearRect (length from)) = final"
    unfolding assms(1) by (rule draw_image_one_clear)
  show ?thesis unfolding fade_frame t using assms(2) by (simp add: s3 s4)
qed

lemma transition_commit_quiet:
  assumes "length from = length final"
  shows "transition_commit True from final start start False = Some from"
  by (simp add: transition_commit_def fade_first_frame [OF assms])

text \<open>
  When the energy effect runs in the commit that starts the fade, its blit of the final
  buffer replaces the frame that \<open>fade()\<close> has just drawn.
\<close>

lemma transition_commit_energy_blit:
  "transition_commit True from final start now True = Some final"
  by (simp add: transition_commit_def fade_frame energy_idle_blit_def blit_is_buffer)

text \<open>
  C1. Every frame that \<open>fade()\<close> draws, at normalised time \<open>t = min 1 (elapsed / 380)\<close>, is
  the final buffer drawn with alpha \<open>t\<^sup>2\<close> over the preview buffer drawn with alpha
  \<open>1 - t\<^sup>2\<close> over the cleared surface; pixel by pixel that is the final pixel
  times \<open>t\<^sup>2\<close> plus the preview pixel times \<open>(1 - t\<^sup>2) * (1 - a * t\<^sup>2)\<close>, \<open>a\<close> the
  alpha of the final pixel. \<open>fade()\<close> requests another frame exactly while less than
  380 ms have elapsed, and sets \<open>hasFinal\<close> once they have. The frame drawn at \<open>t = 0\<close> is
  the preview buffer, as a plain blit shows it, and it is what the surface shows at the
  end of the commit when the energy effect does not run in that commit; the frame drawn
  once 380 ms have elapsed is the final buffer.
\<close>

theorem crossfade_endpoints:
  assumes "length from = length final" "start \<le> now" "0 \<le> late" "i < length from"
    and "from ! i = (fr, fg, fb, fa)" "final ! i = (gr, gg, gb, ga)"
  shows "(let t = min 1 ((now - start) / 380);
              frame = draw_image (t\<^sup>2) final (draw_image (1 - t\<^sup>2) from (clearRect (length from)))
          in 0 \<le> t \<and> t \<le> 1
             \<and> fade True from final start now
                 = Some \<lparr>fd_surface = frame, fd_again = (now - start < 380),
                         fd_hasFinal = (380 \<le> now - start)\<rparr>
             \<and> frame ! i
                 = (gr * t\<^sup>2 + fr * (1 - t\<^sup>2) * (1 - ga * t\<^sup>2),
                    gg * t\<^sup>2 + fg * (1 - t\<^sup>2) * (1 - ga * t\<^sup>2),
                    gb * t\<^sup>2 + fb * (1 - t\<^sup>2) * (1 - ga * t\<^sup>2),
                    ga * t\<^sup>2 + fa * (1 - t\<^sup>2) * (1 - ga * t\<^sup>2)))
       \<and> fade True from final start start
           = Some \<lparr>fd_surface = from, fd_again = True, fd_hasFinal = False\<rparr>
       \<and> fade True from final start (start + 380 + late)
           = Some \<lparr>fd_surface = final, fd_again = False, fd_hasFinal = True\<rparr>
       \<and> transition_commit True from final start start False = Some from
       \<and> blitBufferToVisible True (Some from) = Some from
       \<and> blitBufferToVisible True (Some final) = Some final"
proof -
  have t: "0 \<le> min 1 ((now - start) / 380)" "min 1 ((now - start) / 380) \<le> 1"
    using assms(2) by simp_all
  note f = fade_frame [of "from" final start now]
  note p = fade_frame_pixel [OF assms(1,4,5,6),
      of "(min 1 ((now - start) / 380))\<^sup>2" "1 - (min 1 ((now - start) / 380))\<^sup>2"]
  have a: "let t = min 1 ((now - start) / 380);
              frame = draw_image (t\<^sup>2) final (draw_image (1 - t\<^sup>2) from (clearRect (length from)))
          in 0 \<le> t \<and> t \<le> 1
             \<and> fade True from final start now
                 = Some \<lparr>fd_surface = frame, fd_again = (now - start < 380),
                         fd_hasFinal = (380 \<le> now - start)\<rparr>
             \<and> frame ! i
                 = (gr * t\<^sup>2 + fr * (1 - t\<^sup>2) * (1 - ga * t\<^sup>2),
                    gg * t\<^sup>2 + fg * (1 - t\<^sup>2) * (1 - ga * t\<^sup>2),
                    gb * t\<^sup>2 + fb * (1 - t\<^sup>2) * (1 - ga * t\<^sup>2),
                    ga * t\<^sup>2 + fa * (1 - t\<^sup>2) * (1 - ga * t\<^sup>2))"
    unfolding Let_def using t f p by (intro conjI)
  note b = fade_first_frame [OF assms(1), of start]
  note c = fade_last_frame [OF assms(1,3), of start]
  note d = transition_commit_quiet [OF assms(1), of start]
  note e1 = blit_is_buffer [of "from"]
  note e2 = blit_is_buffer [of final]
  from a b c d e1 e2 show ?thesis by (intro conjI)
qed

theorem crossfade_endpoints_witness:
  "length [(1, 0, 0, 1 :: real)] = length [(0, 1, 0, 1 :: real)]
   \<and> (0 :: real) \<le> 190 \<and> (0 :: real) \<le> 0 \<and> (0 :: nat) < length [(1, 0, 0, 1 :: real)]
   \<and> fade True [(1, 0, 0, 1)] [(0, 1, 0, 1)] 0 190
       = Some \<lparr>fd_surface = [(9 / 16, 1 / 4, 0, 13 / 16)], fd_again = True, fd_hasFinal = False\<rparr>
   \<and> fade True [(1, 0, 0, 1)] [(0, 1, 0, 1)] 0 0
       = Some \<lparr>fd_surface = [(1, 0, 0, 1)], fd_again = True, fd_hasFinal = False\<rparr>
   \<and> fade True [(1, 0, 0, 1)] [(0, 1, 0, 1)] 0 380
       = Some \<lparr>fd_surface = [(0, 1, 0, 1)], fd_again = False, fd_hasFinal = True\<rparr>
   \<and> transition_commit True [(1, 0, 0, 1)] [(0, 1, 0, 1)] 0 0 False = Some [(1, 0, 0, 1)]"
proof -
  have h1: "length [(1, 0, 0, 1 :: real)] = length [(0, 1, 0, 1 :: real)]" by simp
  have h2: "(0 :: real) \<le> 190" by simp
  have h3: "(0 :: real) \<le> 0" by simp
  have h4: "(0 :: nat) < length [(1, 0, 0, 1 :: real)]" by simp
  have h5: "[(1, 0, 0, 1 :: real)] ! 0 = (1, 0, 0, 1)" by simp
  have h6: "[(0, 1, 0, 1 :: real)] ! 0 = (0, 1, 0, 1)" by simp
  note t = crossfade_endpoints [OF h1 h2 h3 h4 h5 h6]
  have a: "fade True [(1, 0, 0, 1)] [(0, 1, 0, 1)] 0 190
       = Some \<lparr>fd_surface = [(9 / 16, 1 / 4, 0, 13 / 16)], fd_again = True, fd_hasFinal = False\<rparr>"
    using t [THEN conjunct1]
    by (simp add: Let_def draw_image_def clearRect_def over_def power2_eq_square)
  have b: "fade True [(1, 0, 0, 1)] [(0, 1, 0, 1)] 0 0
       = Some \<lparr>fd_surface = [(1, 0, 0, 1)], fd_again = True, fd_hasFinal = False\<rparr>"
    using t [THEN conjunct2, THEN conjunct1] .
  have c: "fade True [(1, 0, 0, 1)] [(0, 1, 0, 1)] 0 380
       = Some \<lparr>fd_surface = [(0, 1, 0, 1)], fd_again = False, fd_hasFinal = True\<rparr>"
    using t [THEN conjunct2, THEN conjunct2, THEN conjunct1] by simp
  have d: "transition_commit True [(1, 0, 0, 1)] [(0, 1, 0, 1)] 0 0 False = Some [(1, 0, 0, 1)]"
    using t [THEN conjunct2, THEN conjunct2, THEN conjunct2, THEN conjunct1] .
  from h1 h2 h3 h4 a b c d show ?thesis by (intro conjI)
qed

text \<open>
  Half way through (190 ms, \<open>t = 1/2\<close>) \<open>fade()\<close> draws a red preview pixel with alpha
  3/4 under a green final pixel with alpha 1/4. With the alphas \<open>(1 - t)\<^sup>2\<close> and \<open>t\<^sup>2\<close> the
  frame would be a different one.
\<close>

theorem crossfade_not_one_minus_t_squared:
  "map_option fd_surface (fade True [(1, 0, 0, 1)] [(0, 1, 0, 1)] 0 190)
     = Some [(9 / 16, 1 / 4, 0, 13 / 16)]
   \<and> draw_image ((1 / 2)\<^sup>2) [(0, 1, 0, 1)]
        (draw_image ((1 - 1 / 2)\<^sup>2) [(1, 0, 0, 1)] (clearRect 1))
     = [(3 / 16, 1 / 4, 0, 7 / 16)]
   \<and> fade_alpha_from (fade_t 0 190) = 3 / 4"
  by (simp add: fade_def Let_def fade_t_def DURATION_def fade_alpha_from_def fade_alpha_final_def
        draw_image_def clearRect_def over_def power2_eq_square)

section \<open>The working resolution of the energy mask\<close>

lemma js_round_mono: "x \<le> y \<Longrightarrow> js_round x \<le> js_round y"
  by (simp add: js_round_def floor_mono)

lemma js_round_of_int: "js_round (of_int k) = k"
  by (simp add: js_round_def)

lemma energyScale_range: "0.7 \<le> energyScale w h \<and> energyScale w h \<le> 1"
  by (simp add: energyScale_def Let_def)

lemma energy_long_edge:
  assumes "1 \<le> w" "1 \<le> h"
  shows "max (fst (energy_size w h)) (snd (energy_size w h))
           = max 1 (js_round (of_int (max w h) * energyScale w h))"
proof -
  define s where "s = energyScale w h"
  have s: "0 \<le> s" using energyScale_range [of w h] by (simp add: s_def)
  have m: "js_round (of_int a * s) \<le> js_round (of_int b * s)" if "a \<le> b" for a b :: int
    using that s by (intro js_round_mono mult_right_mono) simp_all
  show ?thesis
  proof (cases "w \<le> h")
    case True
    then show ?thesis using m [OF True] by (simp add: energy_size_def s_def max_def)
  next
    case False
    then have hw: "h \<le> w" by simp
    show ?thesis using m [OF hw] False by (simp add: energy_size_def s_def max_def)
  qed
qed

lemma long_edge_cases:
  fixes m :: int
  assumes "1 \<le> m" "max w h = m"
  shows "m \<le> 520 \<Longrightarrow> max 1 (js_round (of_int m * energyScale w h)) = m"
    and "520 < m \<Longrightarrow> m \<le> 742 \<Longrightarrow> max 1 (js_round (of_int m * energyScale w h)) = 520"
    and "743 \<le> m \<Longrightarrow> max 1 (js_round (of_int m * energyScale w h))
                         = js_round (of_int m * 0.7)"
proof -
  have pos: "0 < (of_int m :: real)" using assms(1) by simp
  {
    assume a: "m \<le> 520"
    then have "1 \<le> 520 / (of_int m :: real)" using pos by (simp add: le_divide_eq)
    then have "energyScale w h = 1" by (simp add: energyScale_def Let_def assms(2))
    then show "max 1 (js_round (of_int m * energyScale w h)) = m"
      using assms(1) by (simp add: js_round_of_int)
  }
  {
    assume a: "520 < m" "m \<le> 742"
    have "(of_int m :: real) \<le> 742" using a(2) by (metis of_int_le_iff of_int_numeral)
    then have lo: "0.7 \<le> 520 / (of_int m :: real)" using pos by (simp add: le_divide_eq)
    have "(520 :: real) < of_int m" using a(1) by (metis of_int_less_iff of_int_numeral)
    then have hi: "520 / (of_int m :: real) \<le> 1" using pos by (simp add: divide_le_eq)
    have "energyScale w h = 520 / of_int m"
      using lo hi by (simp add: energyScale_def Let_def assms(2))
    then have "of_int m * energyScale w h = 520" using pos by simp
    then show "max 1 (js_round (of_int m * energyScale w h)) = 520"
      using js_round_of_int [of 520] by simp
  }
  {
    assume a: "743 \<le> m"
    have r: "(743 :: real) \<le> of_int m" using a by (metis of_int_le_iff of_int_numeral)
    then have "520 / (of_int m :: real) \<le> 0.7" using pos by (simp add: divide_le_eq)
    then have e: "energyScale w h = 0.7" by (simp add: energyScale_def Let_def assms(2))
    have "(1 :: real) \<le> of_int m * 0.7" using r by simp
    then have "js_round 1 \<le> js_round (of_int m * 0.7)" by (rule js_round_mono)
    then have "1 \<le> js_round (of_int m * 0.7)" using js_round_of_int [of 1] by simp
    then show "max 1 (js_round (of_int m * energyScale w h)) = js_round (of_int m * 0.7)"
      unfolding e by simp
  }
qed

lemma round_seven_tenths:
  fixes m :: int
  shows "js_round (of_int m * 0.7) \<le> 520 \<longleftrightarrow> m \<le> 743"
proof -
  have "js_round (of_int m * 0.7) \<le> 520 \<longleftrightarrow> of_int m * 0.7 + 1 / 2 < (521 :: real)"
    by (simp add: js_round_def floor_le_iff)
  also have "\<dots> \<longleftrightarrow> (of_int m :: real) * 7 < 5205" by (simp add: field_simps)
  also have "\<dots> \<longleftrightarrow> (of_int (m * 7) :: real) < of_int 5205" by simp
  also have "\<dots> \<longleftrightarrow> m * 7 < 5205" by (rule of_int_less_iff)
  also have "\<dots> \<longleftrightarrow> m \<le> 743" by auto
  finally show ?thesis .
qed

lemma js_round_near: "\<bar>of_int (js_round x) - x\<bar> \<le> 1 / 2"
  unfolding js_round_def by linarith

text \<open>
  C4. The energy canvas is the plan scaled by a factor clamped to \<open>[0.7, 1]\<close>. Its long
  edge is at most 520 pixels exactly when the plan's long edge is at most 743 pixels; it
  never exceeds the plan's long edge; and for a plan whose long edge is 743 or more it is
  0.7 times that edge to within half a pixel, so it grows with the plan. (These bounds
  leave room for the rounding of binary64, which decides exact ties \<open>k + 0.5\<close> of
  \<open>w * 0.7\<close> differently from real arithmetic.)
\<close>

theorem energy_size_long_edge:
  assumes "1 \<le> w" "1 \<le> h"
  shows "(max (fst (energy_size w h)) (snd (energy_size w h)) \<le> 520 \<longleftrightarrow> max w h \<le> 743)
       \<and> max (fst (energy_size w h)) (snd (energy_size w h)) \<le> max w h
       \<and> (743 \<le> max w h \<longrightarrow>
            \<bar>of_int (max (fst (energy_size w h)) (snd (energy_size w h)))
               - 0.7 * of_int (max w h)\<bar> \<le> (1 / 2 :: real))"
proof -
  define m where "m = max w h"
  define e where "e = max (fst (energy_size w h)) (snd (energy_size w h))"
  have m1: "1 \<le> m" using assms by (simp add: m_def)
  have e: "e = max 1 (js_round (of_int m * energyScale w h))"
    unfolding e_def m_def using assms by (rule energy_long_edge)
  note c = long_edge_cases [OF m1 m_def [symmetric]]
  have le: "e \<le> m"
  proof -
    have "of_int m * energyScale w h \<le> of_int m * 1"
      using energyScale_range [of w h] m1 by (intro mult_left_mono) simp_all
    then have "js_round (of_int m * energyScale w h) \<le> js_round (of_int m)"
      by (intro js_round_mono) simp
    then show ?thesis using m1 by (simp add: e js_round_of_int)
  qed
  have iff: "e \<le> 520 \<longleftrightarrow> m \<le> 743"
  proof -
    consider "m \<le> 520" | "520 < m \<and> m \<le> 742" | "743 \<le> m" by linarith
    then show ?thesis
    proof cases
      case 1
      then show ?thesis using c(1) e by simp
    next
      case 2
      then show ?thesis using c(2) e by simp
    next
      case 3
      then show ?thesis using c(3) e round_seven_tenths [of m] by simp
    qed
  qed
  have big: "\<bar>of_int e - 0.7 * of_int m\<bar> \<le> (1 / 2 :: real)" if "743 \<le> m"
  proof -
    have "e = js_round (of_int m * 0.7)" using c(3) [OF that] e by simp
    then show ?thesis using js_round_near [of "of_int m * 0.7"] by (simp add: mult.commute)
  qed
  show ?thesis using iff le big unfolding e_def m_def by blast
qed

theorem energy_size_long_edge_witness:
  "(1 :: int) \<le> 800 \<and> (1 :: int) \<le> 600 \<and> (743 :: int) \<le> max 800 600
   \<and> \<not> max (fst (energy_size 800 600)) (snd (energy_size 800 600)) \<le> 520
   \<and> max (fst (energy_size 800 600)) (snd (energy_size 800 600)) \<le> 800
   \<and> \<bar>of_int (max (fst (energy_size 800 600)) (snd (energy_size 800 600))) - 0.7 * 800\<bar>
       \<le> (1 / 2 :: real)"
proof -
  have h: "(1 :: int) \<le> 800" "(1 :: int) \<le> 600" by simp_all
  show ?thesis
    using energy_size_long_edge [OF h] by simp
qed

lemma energy_size_2000: "energy_size 2000 2000 = (1400, 1400)"
  by (simp add: energy_size_def energyScale_def js_round_def Let_def)

text \<open>
  A 2000 \<times> 2000 plan gets a 1400 \<times> 1400 energy canvas: its long edge is not within
  520 pixels.
\<close>

theorem energy_size_exceeds_520:
  "\<not> max (fst (energy_size 2000 2000)) (snd (energy_size 2000 2000)) \<le> 520"
  by (simp add: energy_size_def energyScale_def js_round_def Let_def)

section \<open>The energy frame loop\<close>

lemma run_frames_idle:
  "\<not> l_pending st \<Longrightarrow> run_frames env ts st = st"
  by (induction ts) (simp_all add: animation_frame_def)

lemma run_frames_loop:
  "e_mounted env \<Longrightarrow> l_pending st \<Longrightarrow>
     run_frames env ts st = st\<lparr>l_frames := l_frames st @ ts\<rparr>"
proof (induction ts arbitrary: st)
  case Nil
  then show ?case by simp
next
  case (Cons now ts)
  have "animation_frame env now st = st\<lparr>l_frames := l_frames st @ [now]\<rparr>"
    using Cons.prems by (simp add: animation_frame_def tick_def drawFrame_def)
  then show ?case using Cons by simp
qed

text \<open>
  C8. Once the energy phase is entered (final buffer shown, population at or above the
  threshold, plan and outline data present, canvas mounted), the effect run at time
  \<open>now\<close> followed by any display frames \<open>ts\<close> behaves as follows. Under the
  reduced-motion preference exactly one energy frame is drawn (at \<open>now\<close>) and no callback
  is ever scheduled. Without it one energy frame is drawn per display frame and a
  callback is scheduled again after each.
\<close>

theorem energy_loop_reduced_motion:
  assumes "e_hasFinal env" "e_CAP env \<le> e_total env" "e_base env" "e_plan env"
    and "e_outlineData env" "e_mounted env"
  shows "run_frames env ts (energy_effect env now st)
           = (if e_prefersReduced env
              then st\<lparr>l_pending := False, l_frames := l_frames st @ [now]\<rparr>
              else st\<lparr>l_pending := True, l_frames := l_frames st @ ts\<rparr>)"
proof (cases "e_prefersReduced env")
  case True
  then have "energy_effect env now st = st\<lparr>l_pending := False, l_frames := l_frames st @ [now]\<rparr>"
    using assms by (simp add: energy_effect_def drawFrame_def Let_def)
  then show ?thesis using True by (simp add: run_frames_idle)
next
  case False
  then have "energy_effect env now st = st\<lparr>l_pending := True\<rparr>"
    using assms by (simp add: energy_effect_def Let_def)
  then show ?thesis using False assms(6) by (simp add: run_frames_loop)
qed

theorem energy_loop_reduced_motion_witness:
  "e_hasFinal (env_energy True) \<and> e_CAP (env_energy True) \<le> e_total (env_energy True)
   \<and> e_base (env_energy True) \<and> e_plan (env_energy True) \<and> e_outlineData (env_energy True)
   \<and> e_mounted (env_energy True)
   \<and> run_frames (env_energy True) [16, 33, 50] (energy_effect (env_energy True) 0 loop0)
       = \<lparr>l_pending = False, l_frames = [0], l_blits = 0\<rparr>
   \<and> run_frames (env_energy False) [16, 33, 50] (energy_effect (env_energy False) 0 loop0)
       = \<lparr>l_pending = True, l_frames = [16, 33, 50], l_blits = 0\<rparr>"
proof -
  have h: "e_hasFinal (env_energy r)" "e_CAP (env_energy r) \<le> e_total (env_energy r)"
      "e_base (env_energy r)" "e_plan (env_energy r)" "e_outlineData (env_energy r)"
      "e_mounted (env_energy r)" for r
    by (simp_all add: env_energy_def)
  show ?thesis
    using h [of True]
      energy_loop_reduced_motion [OF h [of True], of "[16, 33, 50]" 0 loop0]
      energy_loop_reduced_motion [OF h [of False], of "[16, 33, 50]" 0 loop0]
    by (simp add: env_energy_def loop0_def)
qed

end
